theory Spec2Isabelle
  imports Complex_Main "HOL-Library.Char_ord" "HOL-Library.List_Lexorder"
    "HOL-Library.Product_Lexorder" "HOL-Library.Sublist"
begin

section \<open>Strings and paths\<close>

text \<open>
  A \<^verbatim>\<open>QString\<close> is modelled as a \<^typ>\<open>string\<close>; paths are plain strings that the
  code compares textually (\<^verbatim>\<open>startsWith\<close>), and so does the model.
\<close>

definition startsWith :: "string \<Rightarrow> string \<Rightarrow> bool" where
  \<comment> \<open>\<^verbatim>\<open>s.startsWith(p)\<close>\<close>
  "startsWith s p = prefix p s"

fun mismatch :: "string \<Rightarrow> string \<Rightarrow> nat" where
  \<comment> \<open>\<^verbatim>\<open>std::mismatch\<close> over two ranges: the offset of the first position where they
      differ, or the length of the shorter one\<close>
  "mismatch (x # xs) (y # ys) = (if x = y then Suc (mismatch xs ys) else 0)"
| "mismatch _ _ = 0"

fun splitSep :: "char \<Rightarrow> string \<Rightarrow> string list" where
  \<comment> \<open>\<^verbatim>\<open>split(sep, Qt::KeepEmptyParts)\<close> for a one-character separator\<close>
  "splitSep sep [] = [[]]"
| "splitSep sep (c # cs) =
     (if c = sep then [] # splitSep sep cs
      else (case splitSep sep cs of f # fs \<Rightarrow> (c # f) # fs | [] \<Rightarrow> [[c]]))"

fun joinSep :: "char \<Rightarrow> string list \<Rightarrow> string" where
  "joinSep sep [] = []"
| "joinSep sep [f] = f"
| "joinSep sep (f # g # fs) = f @ sep # joinSep sep (g # fs)"

definition qsection :: "string \<Rightarrow> char \<Rightarrow> int \<Rightarrow> int \<Rightarrow> string" where
  \<comment> \<open>\<^verbatim>\<open>QString::section(sep, start, end)\<close> with the default flags: the fields
      \<^verbatim>\<open>start..end\<close>, negative indices counting from the last field\<close>
  "qsection s sep first_field last_field =
     (let sections = splitSep sep s;
          n = int (length sections);
          start = (if first_field < 0 then first_field + n else first_field);
          stop = (if last_field < 0 then last_field + n else last_field)
      in if start \<ge> n \<or> stop < 0 \<or> start > stop then []
         else joinSep sep (drop (nat start) (take (nat (stop + 1)) sections)))"

fun getCommonPrefixPath_loop :: "string \<Rightarrow> string list \<Rightarrow> string" where
  "getCommonPrefixPath_loop pfx [] = pfx"
| "getCommonPrefixPath_loop pfx (it # rest) =
     (let offsets = mismatch pfx it
      in getCommonPrefixPath_loop (if offsets \<noteq> length pfx then take offsets it else pfx) rest)"

definition getCommonPrefixPath :: "string list \<Rightarrow> string" where
  "getCommonPrefixPath list =
     (case list of
        [] \<Rightarrow> []
      | first # rest \<Rightarrow> qsection (getCommonPrefixPath_loop first rest) CHR ''/'' 0 (- 2))"

definition isAbsolutePath :: "string \<Rightarrow> bool" where
  "isAbsolutePath p = (case p of [] \<Rightarrow> False | c # _ \<Rightarrow> c = CHR ''/'')"

definition filePath :: "string \<Rightarrow> string \<Rightarrow> string" where
  \<comment> \<open>\<^verbatim>\<open>QDir(dir).filePath(fn)\<close>, also \<^verbatim>\<open>absoluteFilePath\<close> for an absolute \<^verbatim>\<open>dir\<close>:
      an absolute name is returned as it is\<close>
  "filePath dir fn =
     (if isAbsolutePath fn then fn
      else if fn = [] then dir
      else if dir = [] \<or> last dir = CHR ''/'' then dir @ fn
      else dir @ ''/'' @ fn)"

section \<open>JSON values\<close>

text \<open>
  \<^verbatim>\<open>QJsonValue\<close> and \<^verbatim>\<open>QJsonObject\<close>. An object is an association list read with
  \<^const>\<open>map_of\<close>. A number \<open>JNum r\<close> carries the value that
  \<^verbatim>\<open>(float)value.toDouble()\<close> yields.
\<close>

datatype jvalue =
    JNull
  | JBool bool
  | JNum rat
  | JString string
  | JArray "jvalue list"
  | JObject "(string \<times> jvalue) list"

type_synonym jobject = "(string \<times> jvalue) list"

definition jfind :: "jobject \<Rightarrow> string \<Rightarrow> jvalue option" where
  \<comment> \<open>\<^verbatim>\<open>obj.find(key)\<close>; \<open>None\<close> is \<^verbatim>\<open>obj.end()\<close>\<close>
  "jfind obj key = map_of obj key"

definition jinsert :: "string \<Rightarrow> jvalue \<Rightarrow> jobject \<Rightarrow> jobject" where
  \<comment> \<open>\<^verbatim>\<open>obj.insert(key, value)\<close>: replaces the value of an existing key\<close>
  "jinsert key v obj = (key, v) # filter (\<lambda>kv. fst kv \<noteq> key) obj"

fun toString :: "jvalue \<Rightarrow> string" where
  "toString (JString s) = s"
| "toString _ = []"

fun toDouble :: "jvalue \<Rightarrow> rat" where
  "toDouble (JNum r) = r"
| "toDouble _ = 0"

fun toArray :: "jvalue option \<Rightarrow> jvalue list" where
  "toArray (Some (JArray xs)) = xs"
| "toArray _ = []"

fun toObject :: "jvalue \<Rightarrow> jobject" where
  "toObject (JObject obj) = obj"
| "toObject _ = []"

section \<open>The Model record\<close>

text \<open>
  Modelled from the spec: the struct \<^verbatim>\<open>Model\<close> of \<^verbatim>\<open>Model.h\<close>, which is not among the
  sources. The fields are those that \<^verbatim>\<open>ModelManager.cpp\<close> reads and writes; a numeric
  field is \<open>None\<close> while it holds its "zero/empty sentinel" (no version known).
\<close>

record Model =
  shortName :: string
  modelName :: string
  url :: string
  path :: string
  src :: string
  trg :: string
  type :: string
  localversion :: "rat option"
  localAPI :: "rat option"
  remoteversion :: "rat option"
  remoteAPI :: "rat option"

definition empty_Model :: Model where
  \<comment> \<open>\<^verbatim>\<open>Model{}\<close>, the sentinel of a failed parse: \<^verbatim>\<open>path == "" && url == ""\<close>\<close>
  "empty_Model = \<lparr>shortName = [], modelName = [], url = [], path = [], src = [], trg = [],
     type = [], localversion = None, localAPI = None, remoteversion = None, remoteAPI = None\<rparr>"

definition isLocal :: "Model \<Rightarrow> bool" where
  \<comment> \<open>Modelled from the spec: \<^verbatim>\<open>Model::isLocal\<close> of the missing \<^verbatim>\<open>Model.h\<close>;
      "\<^verbatim>\<open>isLocal()\<close> iff \<^verbatim>\<open>path\<close> non-empty".\<close>
  "isLocal m = (path m \<noteq> [])"

definition isSameModel :: "Model \<Rightarrow> Model \<Rightarrow> bool" where
  \<comment> \<open>Modelled from the spec: \<^verbatim>\<open>Model::isSameModel\<close> of the missing \<^verbatim>\<open>Model.h\<close>;
      "the same package iff shortName, sourceLanguage, targetLanguage, and type match".\<close>
  "isSameModel a b =
     (shortName a = shortName b \<and> src a = src b \<and> trg a = trg b \<and> type a = type b)"

definition order_key :: "Model \<Rightarrow> string \<times> string \<times> string" where
  \<comment> \<open>Modelled from the spec: the key of \<^verbatim>\<open>Model::operator<\<close> of the missing
      \<^verbatim>\<open>Model.h\<close>; "display name, then language pair".\<close>
  "order_key m = (modelName m, src m, trg m)"

definition model_less :: "Model \<Rightarrow> Model \<Rightarrow> bool" where
  \<comment> \<open>\<^verbatim>\<open>a < b\<close>\<close>
  "model_less a b = (order_key a < order_key b)"

definition outdated :: "Model \<Rightarrow> bool" where
  \<comment> \<open>Modelled from the spec: \<^verbatim>\<open>Model::outdated\<close> of the missing \<^verbatim>\<open>Model.h\<close>;
      "outdated iff it is local AND has a known remoteVersion AND
      remoteVersion > localVersion". An unknown local version is below every known one.\<close>
  "outdated m =
     (isLocal m \<and>
      (case remoteversion m of
         None \<Rightarrow> False
       | Some r \<Rightarrow> (case localversion m of None \<Rightarrow> True | Some l \<Rightarrow> l < r)))"

definition set_string :: "string \<Rightarrow> string \<Rightarrow> Model \<Rightarrow> Model" where
  \<comment> \<open>Modelled from the spec: \<^verbatim>\<open>Model::set(QString, QString)\<close> of the missing
      \<^verbatim>\<open>Model.h\<close>; a string field is "copied if present, defaulted to empty string if
      missing", a numeric field given no number is "left at a zero/empty sentinel".\<close>
  "set_string key val m =
     (if key = ''shortName'' then m\<lparr>shortName := val\<rparr>
      else if key = ''modelName'' then m\<lparr>modelName := val\<rparr>
      else if key = ''src'' then m\<lparr>src := val\<rparr>
      else if key = ''trg'' then m\<lparr>trg := val\<rparr>
      else if key = ''type'' then m\<lparr>type := val\<rparr>
      else if key = ''path'' then m\<lparr>path := val\<rparr>
      else if key = ''url'' then m\<lparr>url := val\<rparr>
      else m)"

definition set_float :: "string \<Rightarrow> rat \<Rightarrow> Model \<Rightarrow> Model" where
  \<comment> \<open>Modelled from the spec: \<^verbatim>\<open>Model::set(QString, float)\<close> of the missing
      \<^verbatim>\<open>Model.h\<close>; "copied into the provenance-qualified slot".\<close>
  "set_float key val m =
     (if key = ''localversion'' then m\<lparr>localversion := Some val\<rparr>
      else if key = ''localAPI'' then m\<lparr>localAPI := Some val\<rparr>
      else if key = ''remoteversion'' then m\<lparr>remoteversion := Some val\<rparr>
      else if key = ''remoteAPI'' then m\<lparr>remoteAPI := Some val\<rparr>
      else m)"

section \<open>The manager's state\<close>

text \<open>
  The file system is an association list from absolute paths to nodes. A file carries
  whether it can be opened and the object that
  \<^verbatim>\<open>QJsonDocument::fromJson(bytes).object()\<close> yields for its bytes (the empty object
  when they are no JSON object).
\<close>

datatype node = Dir | File (readable: bool) (json: jobject)

type_synonym filesystem = "(string \<times> node) list"

datatype signal =
    ErrTempDir string
  | ErrChdir string string
  | ErrExtract string
  | ErrNothingExtracted
  | ErrNoPrefix
  | ErrNoModelInfo string
  | ErrOpenJson string
  | ErrMissingKey string
  | ErrMove string string
  | ErrDeleteInfo string
  | ErrRemoveDir string
  | ErrCorrupted string
  | DataChanged nat
  | RowsInserted nat nat
  | RowsRemoved nat nat
  | LocalModelsChanged

record manager =
  configDir :: string
  localModels :: "Model list"
  remoteModels :: "Model list"
  newModels :: "Model list"
  updatedModels :: "Model list"
  archives :: "string list"
  fs :: filesystem
  cwd :: string
  signals :: "signal list"

definition emit :: "signal \<Rightarrow> manager \<Rightarrow> manager" where
  "emit sig s = s\<lparr>signals := signals s @ [sig]\<rparr>"

datatype Location = Local | Remote

section \<open>Parsing a descriptor\<close>

definition keysSTR :: "string list" where
  "keysSTR = [''shortName'', ''modelName'', ''src'', ''trg'', ''type'']"

definition keysFLT :: "string list" where
  "keysFLT = [''version'', ''API'']"

definition parseModelInfo :: "jobject \<Rightarrow> Location \<Rightarrow> manager \<Rightarrow> Model \<times> manager" where
  \<comment> \<open>the callers that pass no location (\<^verbatim>\<open>validateModel\<close>, \<^verbatim>\<open>writeModel\<close>,
      \<^verbatim>\<open>scanForModels\<close>) parse a local descriptor\<close>
  "parseModelInfo obj loc s =
     (let criticalKey = (if loc = Local then ''path'' else ''url'');
          model1 = fold (\<lambda>key m.
                      case jfind obj key of
                        Some v \<Rightarrow> set_string key (toString v) m
                      | None \<Rightarrow> set_string key [] m) keysSTR empty_Model;
          model2 = fold (\<lambda>key m.
                      let keyname = (if loc = Local then ''local'' @ key else ''remote'' @ key)
                      in case jfind obj key of
                           Some v \<Rightarrow> set_float keyname (toDouble v) m
                         | None \<Rightarrow> set_string keyname [] m) keysFLT model1
      in case jfind obj criticalKey of
           Some v \<Rightarrow> (set_string criticalKey (toString v) model2, s)
         | None \<Rightarrow> (empty_Model, emit (ErrMissingKey criticalKey) s))"

section \<open>The registry\<close>

fun insertLocalModel_loop :: "Model \<Rightarrow> Model list \<Rightarrow> nat \<Rightarrow> nat \<Rightarrow> nat + nat" where
  \<comment> \<open>the \<^verbatim>\<open>for\<close> loop over the entries from index \<open>i\<close> on: \<open>Inl i\<close> when entry \<open>i\<close> is
      the same model, \<open>Inr position\<close> when the loop runs to its end\<close>
  "insertLocalModel_loop model [] i position = Inr position"
| "insertLocalModel_loop model (x # rest) i position =
     (if isSameModel x model then Inl i
      else insertLocalModel_loop model rest (i + 1)
             (if model_less x model then i + 1 else position))"

definition insertLocalModel :: "Model \<Rightarrow> manager \<Rightarrow> bool \<times> manager" where
  "insertLocalModel model s =
     (case insertLocalModel_loop model (localModels s) 0 0 of
        Inl i \<Rightarrow>
          (False, emit (DataChanged i) (s\<lparr>localModels := (localModels s)[i := model]\<rparr>))
      | Inr position \<Rightarrow>
          (True, emit (RowsInserted position (position + 1))
                   (s\<lparr>localModels := localModels s @ [model]\<rparr>)))"

fun findSameModel :: "Model \<Rightarrow> Model list \<Rightarrow> nat \<Rightarrow> nat option" where
  \<comment> \<open>the inner loop of \<^verbatim>\<open>updateAvailableModels\<close>: the first index from \<open>i\<close> on whose
      entry is the same model\<close>
  "findSameModel model [] i = None"
| "findSameModel model (x # rest) i =
     (if isSameModel x model then Some i else findSameModel model rest (i + 1))"

definition updateAvailableModels_step :: "Model \<Rightarrow> manager \<Rightarrow> manager" where
  \<comment> \<open>the body of the loop over \<^verbatim>\<open>remoteModels_\<close>\<close>
  "updateAvailableModels_step model s =
     (case findSameModel model (localModels s) 0 of
        None \<Rightarrow> s\<lparr>newModels := newModels s @ [model]\<rparr>
      | Some i \<Rightarrow>
          (let l = (localModels s ! i)\<lparr>remoteversion := remoteversion model,
                                        remoteAPI := remoteAPI model\<rparr>;
               s1 = emit (DataChanged i) (s\<lparr>localModels := (localModels s)[i := l]\<rparr>)
           in if outdated l then s1\<lparr>updatedModels := updatedModels s1 @ [model]\<rparr> else s1))"

definition updateAvailableModels :: "manager \<Rightarrow> manager" where
  "updateAvailableModels s =
     emit LocalModelsChanged
       (fold updateAvailableModels_step (remoteModels s)
          (s\<lparr>newModels := [], updatedModels := []\<rparr>))"

fun parseRemoteModels_loop :: "jvalue list \<Rightarrow> manager \<Rightarrow> manager" where
  "parseRemoteModels_loop [] s = s"
| "parseRemoteModels_loop (arrobj # rest) s =
     (let (model, s1) = parseModelInfo (toObject arrobj) Remote s
      in parseRemoteModels_loop rest (s1\<lparr>remoteModels := remoteModels s1 @ [model]\<rparr>))"

definition parseRemoteModels :: "jobject \<Rightarrow> manager \<Rightarrow> manager" where
  \<comment> \<open>\<^verbatim>\<open>std::sort\<close> orders by \<^verbatim>\<open>operator<\<close>; among models with equal keys the order it
      leaves is not specified, and the model keeps their order\<close>
  "parseRemoteModels obj s =
     (let s1 = parseRemoteModels_loop (toArray (jfind obj ''models'')) (s\<lparr>remoteModels := []\<rparr>)
      in updateAvailableModels (s1\<lparr>remoteModels := sort_key order_key (remoteModels s1)\<rparr>))"

section \<open>The file system\<close>

text \<open>
  The operations of Qt and of the operating system on the disk, as far as the manager
  uses them. The paths the manager hands to Qt are absolute
  (\<^verbatim>\<open>configDir_.absolutePath()\<close>, the path of a \<^verbatim>\<open>QTemporaryDir\<close>,
  \<^verbatim>\<open>QDir::currentPath()\<close>); only the name of an archive entry is taken from the current
  directory. The operating system resolves a path to a place: it drops empty and
  \<^verbatim>\<open>.\<close> components and steps up at \<^verbatim>\<open>..\<close>. A place is written \<^verbatim>\<open>/a/b\<close>, the root
  directory is the empty string. The disk lists the directories and files by their
  places; it holds no link nodes, and what a link does to the place of an archive entry is
  told by the entry (see below).
\<close>

fun norm :: "string list \<Rightarrow> string list \<Rightarrow> string list" where
  \<comment> \<open>walks the components of a path from the directory \<open>acc\<close>\<close>
  "norm acc [] = acc"
| "norm acc (c # cs) =
     (if c = [] \<or> c = ''.'' then norm acc cs
      else if c = ''..'' then norm (butlast acc) cs
      else norm (acc @ [c]) cs)"

definition render :: "string list \<Rightarrow> string" where
  "render cs = concat (map (\<lambda>c. CHR ''/'' # c) cs)"

definition cleanPath :: "string \<Rightarrow> string" where
  \<comment> \<open>the place that the absolute path \<open>p\<close> names\<close>
  "cleanPath p = render (norm [] (splitSep CHR ''/'' p))"

definition nodeAt :: "filesystem \<Rightarrow> string \<Rightarrow> node option" where
  \<comment> \<open>what is at a place; the root directory always exists\<close>
  "nodeAt disk q = (if q = [] then Some Dir else map_of disk q)"

definition lookup :: "filesystem \<Rightarrow> string \<Rightarrow> node option" where
  \<comment> \<open>what a path leads to\<close>
  "lookup disk p = nodeAt disk (cleanPath p)"

definition isDir :: "filesystem \<Rightarrow> string \<Rightarrow> bool" where
  "isDir disk p = (lookup disk p = Some Dir)"

definition fs_put :: "string \<Rightarrow> node \<Rightarrow> filesystem \<Rightarrow> filesystem" where
  "fs_put q n disk = (q, n) # filter (\<lambda>e. fst e \<noteq> q) disk"

definition inTree :: "string \<Rightarrow> string \<Rightarrow> bool" where
  \<comment> \<open>the place \<open>q\<close> is the directory \<open>d\<close> or lies below it\<close>
  "inTree d q = (q = d \<or> startsWith q (d @ ''/''))"

definition removeTree :: "string \<Rightarrow> filesystem \<Rightarrow> filesystem" where
  \<comment> \<open>\<^verbatim>\<open>QDir(d).removeRecursively()\<close>, and the clean-up of a \<^verbatim>\<open>QTemporaryDir\<close>, at the
      place \<open>d\<close>\<close>
  "removeTree d disk = filter (\<lambda>e. \<not> inTree d (fst e)) disk"

definition renameTree :: "string \<Rightarrow> string \<Rightarrow> filesystem \<Rightarrow> filesystem" where
  \<comment> \<open>the effect of a \<^verbatim>\<open>rename\<close> of the directory at \<open>old\<close> to the place \<open>new\<close>\<close>
  "renameTree old new disk =
     map (\<lambda>e. if inTree old (fst e) then (new @ drop (length old) (fst e), snd e) else e) disk"

definition parents :: "string \<Rightarrow> string list" where
  \<comment> \<open>the directories above the place \<open>q\<close>, but for the root: \<^verbatim>\<open>/a/b/c\<close> has \<^verbatim>\<open>/a\<close>
      and \<^verbatim>\<open>/a/b\<close>\<close>
  "parents q = map (\<lambda>i. take i q) (filter (\<lambda>i. q ! i = CHR ''/'') [1..<length q])"

definition dirName :: "string \<Rightarrow> string" where
  \<comment> \<open>the directory that holds the place \<open>q\<close>\<close>
  "dirName q = qsection q CHR ''/'' 0 (- 2)"

definition mkParents :: "string \<Rightarrow> filesystem \<Rightarrow> filesystem" where
  "mkParents q disk =
     fold (\<lambda>a d. if nodeAt d a = None then fs_put a Dir d else d) (parents q) disk"

definition fs_write :: "string \<Rightarrow> node \<Rightarrow> filesystem \<Rightarrow> filesystem" where
  \<comment> \<open>what extracting one archive entry to the place \<open>q\<close> does to the disk: the
      directories above \<open>q\<close> are made as needed, an existing directory is never replaced\<close>
  "fs_write q n disk =
     (if nodeAt disk q = Some Dir then disk else fs_put q n (mkParents q disk))"

definition setCurrent :: "string \<Rightarrow> manager \<Rightarrow> bool \<times> manager" where
  \<comment> \<open>\<^verbatim>\<open>QDir::setCurrent(p)\<close>\<close>
  "setCurrent p s =
     (if isDir (fs s) p then (True, s\<lparr>cwd := p\<rparr>) else (False, s))"

definition baseName :: "string \<Rightarrow> string" where
  \<comment> \<open>\<^verbatim>\<open>QFileInfo(p).fileName()\<close>\<close>
  "baseName p = qsection p CHR ''/'' (- 1) (- 1)"

definition completeSuffix :: "string \<Rightarrow> string" where
  \<comment> \<open>\<^verbatim>\<open>QFileInfo(p).completeSuffix()\<close>: what follows the first dot of the file name\<close>
  "completeSuffix p = (case dropWhile (\<lambda>c. c \<noteq> CHR ''.'') (baseName p) of [] \<Rightarrow> [] | _ # r \<Rightarrow> r)"

definition dirEntries :: "filesystem \<Rightarrow> string \<Rightarrow> string list" where
  \<comment> \<open>what \<^verbatim>\<open>QDirIterator(d, QDir::NoFilter)\<close> yields for a directory: \<^verbatim>\<open>.\<close>, \<^verbatim>\<open>..\<close>
      and the entries directly in \<open>d\<close>, each as \<open>d\<close>, a slash and the name\<close>
  "dirEntries disk d =
     (if isDir disk d then
        [d @ ''/.'', d @ ''/..''] @
        map (\<lambda>q. d @ drop (length (cleanPath d)) q)
          (filter (\<lambda>q. startsWith q (cleanPath d @ ''/'') \<and> dirName q = cleanPath d)
             (map fst disk))
      else [])"

fun beforeFirst :: "string \<Rightarrow> string \<Rightarrow> string" where
  \<comment> \<open>\<^verbatim>\<open>s.split(sep)[0]\<close>\<close>
  "beforeFirst sep [] = []"
| "beforeFirst sep (c # cs) = (if prefix sep (c # cs) then [] else c # beforeFirst sep cs)"

section \<open>Reading and validating a package directory\<close>

definition isManagedModel :: "manager \<Rightarrow> Model \<Rightarrow> bool" where
  "isManagedModel s model = (isLocal model \<and> startsWith (path model) (configDir s))"

definition getModelInfoJsonFromDir :: "string \<Rightarrow> manager \<Rightarrow> jobject \<times> manager" where
  "getModelInfoJsonFromDir dir s =
     (let modelInfo = dir @ ''/model_info.json''
      in case lookup (fs s) modelInfo of
           None \<Rightarrow> ([], s)
         | Some Dir \<Rightarrow> ([], emit (ErrOpenJson modelInfo) s)
         | Some (File isOpen obj) \<Rightarrow>
             (if isOpen then (jinsert ''path'' (JString dir) obj, s)
              else ([], emit (ErrOpenJson modelInfo) s)))"

definition validateModel :: "string \<Rightarrow> manager \<Rightarrow> bool \<times> manager" where
  "validateModel p s =
     (let (obj, s1) = getModelInfoJsonFromDir p s
      in if jfind obj ''path'' = None then (False, emit (ErrNoModelInfo p) s1)
         else (let (model, s2) = parseModelInfo obj Local s1
               in if \<not> isLocal model then (False, s2) else (True, s2)))"

section \<open>Scanning a directory\<close>

fun scanForModels_loop :: "string list \<Rightarrow> manager \<Rightarrow> manager" where
  "scanForModels_loop [] s = s"
| "scanForModels_loop (current # rest) s =
     (if isDir (fs s) current then
        (let (obj, s1) = getModelInfoJsonFromDir current s
         in if obj \<noteq> [] then
              (let (model, s2) = parseModelInfo obj Local s1
               in if path model \<noteq> [] then
                    scanForModels_loop rest (snd (insertLocalModel model s2))
                  else scanForModels_loop rest (emit (ErrCorrupted current) s2))
            else scanForModels_loop rest s1)
      else if completeSuffix current = ''tar.gz'' then
        scanForModels_loop rest (s\<lparr>archives := archives s @ [baseName current]\<rparr>)
      else scanForModels_loop rest s)"

definition scanForModels :: "string \<Rightarrow> manager \<Rightarrow> manager" where
  "scanForModels p s = updateAvailableModels (scanForModels_loop (dirEntries (fs s) p) s)"

section \<open>Extracting an archive\<close>

text \<open>
  libarchive is outside the sources. An archive is the list of its entries; each entry
  carries its path name, its declared size, what is found at its place once it is
  written (a directory or a file; for a link entry, what the link leads to), and the
  values that the calls of libarchive return for it. The status codes are those of
  \<^verbatim>\<open>archive.h\<close>.

  An entry is written when \<^verbatim>\<open>archive_write_header\<close> does not fail. With
  \<^verbatim>\<open>ARCHIVE_EXTRACT_TIME\<close> as the only option libarchive checks no path name: the
  entry is written where the operating system resolves its name from the current
  directory, an absolute name where it says, \<^verbatim>\<open>..\<close> upwards, and through the links
  that the disk or earlier entries of the archive hold. Which links a name passes is not
  decided by this code: an entry that is written through a link carries the place where
  it lands (\<open>via_link\<close>).
\<close>

definition ARCHIVE_EOF :: int where "ARCHIVE_EOF = 1"
definition ARCHIVE_OK :: int where "ARCHIVE_OK = 0"
definition ARCHIVE_WARN :: int where "ARCHIVE_WARN = - 20"

record entry =
  pathname :: string
  entry_size :: int
  content :: node
  via_link :: "string option"
  read_next_header :: int
  write_header :: int
  data_blocks :: "(int \<times> int) list"
  write_finish_entry :: int

record QFile =
  fileName :: string
  opens :: bool
  read_open_fd :: int
  entries :: "entry list"

definition landing :: "string \<Rightarrow> entry \<Rightarrow> string" where
  \<comment> \<open>the place where an entry is written when the current directory is \<open>dir\<close>\<close>
  "landing dir e =
     (case via_link e of
        Some l \<Rightarrow> cleanPath l
      | None \<Rightarrow> cleanPath (filePath dir (pathname e)))"

definition warn :: "string \<Rightarrow> manager \<Rightarrow> manager" where
  "warn f s = emit (ErrExtract f) s"

fun copy_data :: "(int \<times> int) list \<Rightarrow> manager \<Rightarrow> int \<times> manager" where
  \<comment> \<open>a block is the pair of what \<^verbatim>\<open>archive_read_data_block\<close> and
      \<^verbatim>\<open>archive_write_data_block\<close> return; after the last block the read returns
      \<^verbatim>\<open>ARCHIVE_EOF\<close>\<close>
  "copy_data [] s = (ARCHIVE_OK, s)"
| "copy_data ((r, w) # blocks) s =
     (if r = ARCHIVE_EOF then (ARCHIVE_OK, s)
      else if r \<noteq> ARCHIVE_OK then (r, warn ''archive_read_data_block()'' s)
      else if w \<noteq> ARCHIVE_OK then (w, warn ''archive_write_data_block()'' s)
      else copy_data blocks s)"

definition write_entry :: "entry \<Rightarrow> string list \<Rightarrow> manager \<Rightarrow> bool \<times> string list \<times> manager" where
  \<comment> \<open>the part of the loop body from \<^verbatim>\<open>archive_write_header\<close> to \<^verbatim>\<open>copy_data\<close>; the
      first component is false where the code returns false\<close>
  "write_entry e files s =
     (if write_header e < ARCHIVE_OK then (True, files, warn ''archive_write_header()'' s)
      else
        (let s' = s\<lparr>fs := fs_write (landing (cwd s) e) (content e) (fs s)\<rparr>;
             files' = files @ [pathname e]
         in if entry_size e > 0 then
              (let (retval, s'') = copy_data (data_blocks e) s'
               in (\<not> retval < ARCHIVE_WARN, files', s''))
            else (True, files', s')))"

definition extract_entry :: "entry \<Rightarrow> string list \<Rightarrow> manager \<Rightarrow> bool \<times> string list \<times> manager" where
  \<comment> \<open>the loop body for an entry whose header was read; the first component is false
      where the code returns false\<close>
  "extract_entry e files s =
     (let s1 = (if read_next_header e < ARCHIVE_OK
                then warn ''archive_read_next_header()'' s else s)
      in if read_next_header e < ARCHIVE_WARN then (False, files, s1)
         else
           (let (ok, files2, s2) = write_entry e files s1
            in if \<not> ok then (False, files2, s2)
               else
                 (let s3 = (if write_finish_entry e < ARCHIVE_OK
                            then warn ''archive_write_finish_entry()'' s2 else s2)
                  in (\<not> write_finish_entry e < ARCHIVE_WARN, files2, s3))))"

fun extract_loop :: "entry list \<Rightarrow> string list \<Rightarrow> manager \<Rightarrow> bool \<times> string list \<times> manager" where
  \<comment> \<open>the loop over the entries; past the last one \<^verbatim>\<open>archive_read_next_header\<close>
      returns \<^verbatim>\<open>ARCHIVE_EOF\<close>\<close>
  "extract_loop [] files s = (True, files, s)"
| "extract_loop (e # rest) files s =
     (if read_next_header e = ARCHIVE_EOF then (True, files, s)
      else
        (let (ok, files', s') = extract_entry e files s
         in if ok then extract_loop rest files' s' else (False, files', s')))"

definition extractTarGzInCurrentPath ::
  "QFile \<Rightarrow> string list \<Rightarrow> manager \<Rightarrow> bool \<times> string list \<times> manager" where
  "extractTarGzInCurrentPath file files s =
     (if \<not> opens file then (False, files, warn ''QIODevice::open()'' s)
      else if read_open_fd file \<noteq> 0 then (False, files, warn ''archive_read_open_filename()'' s)
      else extract_loop (entries file) files s)"

definition extractTarGz ::
  "QFile \<Rightarrow> string \<Rightarrow> string list \<Rightarrow> manager \<Rightarrow> bool \<times> string list \<times> manager" where
  "extractTarGz file destination files s =
     (let currentPath = cwd s;
          (changed, s1) = setCurrent destination s
      in if \<not> changed then (False, files, emit (ErrChdir destination (fileName file)) s1)
         else
           (let (success, extracted, s2) = extractTarGzInCurrentPath file [] s1;
                files' = files @ map (filePath destination) extracted;
                (_, s3) = setCurrent currentPath s2
            in (success, files', s3)))"

section \<open>Installing and removing\<close>

text \<open>
  What the environment decides: the path that a \<^verbatim>\<open>QTemporaryDir\<close> tries (\<open>None\<close>
  when it finds none), the digits of \<^verbatim>\<open>QDateTime::currentSecsSinceEpoch()\<close>, and
  whether the operating system grants a rename or a recursive removal.
\<close>

record env =
  tempDir :: "string option"
  secsSinceEpoch :: string
  renameGranted :: bool
  removeGranted :: bool

datatype install_error =
    TempDirFailed
  | ExtractionFailed
  | NothingExtracted
  | NoCommonPrefix
  | InvalidPackage
  | RelocationFailed

definition tempDirValid :: "filesystem \<Rightarrow> string \<Rightarrow> bool" where
  \<comment> \<open>\<^verbatim>\<open>QTemporaryDir::isValid()\<close>: the directory was made, at a place where nothing was
      and below directories that exist; its path names that place\<close>
  "tempDirValid disk tmp =
     (cleanPath tmp = tmp \<and> tmp \<noteq> []
      \<and> list_all (\<lambda>e. \<not> inTree tmp (fst e)) disk
      \<and> list_all (\<lambda>a. nodeAt disk a = Some Dir) (parents tmp))"

definition rename :: "env \<Rightarrow> string \<Rightarrow> string \<Rightarrow> manager \<Rightarrow> bool \<times> manager" where
  \<comment> \<open>\<^verbatim>\<open>QDir().rename(old, new)\<close>: something other than the root must be at \<open>old\<close>,
      nothing may lie at or below \<open>new\<close>, and the directory that is to hold \<open>new\<close>
      must exist\<close>
  "rename ev old new s =
     (if renameGranted ev \<and> cleanPath old \<noteq> [] \<and> lookup (fs s) old \<noteq> None
         \<and> cleanPath new \<noteq> []
         \<and> list_all (\<lambda>e. \<not> inTree (cleanPath new) (fst e)) (fs s)
         \<and> nodeAt (fs s) (dirName (cleanPath new)) = Some Dir
      then (True, s\<lparr>fs := renameTree (cleanPath old) (cleanPath new) (fs s)\<rparr>)
      else (False, s))"

definition newModelDirName :: "env \<Rightarrow> string \<Rightarrow> string" where
  \<comment> \<open>\<^verbatim>\<open>QString("%1-%2").arg(filename.split(".tar.gz")[0]).arg(secs)\<close>, for a file
      name without place markers\<close>
  "newModelDirName ev filename = beforeFirst ''.tar.gz'' filename @ ''-'' @ secsSinceEpoch ev"

definition writeModel_body ::
  "env \<Rightarrow> string \<Rightarrow> QFile \<Rightarrow> string \<Rightarrow> manager \<Rightarrow> (install_error + Model) \<times> manager" where
  \<comment> \<open>\<^verbatim>\<open>writeModel\<close> from the extraction on, with the temporary directory \<open>tmp\<close>;
      \<open>Inl\<close> names the step of an early \<^verbatim>\<open>return Model{}\<close>\<close>
  "writeModel_body ev tmp file filename s =
     (let (extractedOk, extracted, s1) = extractTarGz file tmp [] s
      in if \<not> extractedOk then (Inl ExtractionFailed, s1)
         else if extracted = [] then (Inl NothingExtracted, emit ErrNothingExtracted s1)
         else
           (let pfx = getCommonPrefixPath extracted
            in if pfx = [] then (Inl NoCommonPrefix, emit ErrNoPrefix s1)
               else
                 (let (valid, s2) = validateModel pfx s1
                  in if \<not> valid then (Inl InvalidPackage, s2)
                     else
                       (let newModelDirPath = filePath (configDir s2) (newModelDirName ev filename);
                            (moved, s3) = rename ev pfx newModelDirPath s2
                        in if \<not> moved then (Inl RelocationFailed, emit (ErrMove tmp newModelDirPath) s3)
                           else
                             (let (obj, s4) = getModelInfoJsonFromDir newModelDirPath s3;
                                  (model, s5) = parseModelInfo obj Local s4;
                                  s6 = snd (insertLocalModel model s5)
                              in (Inr model, updateAvailableModels s6))))))"

definition writeModel_steps ::
  "env \<Rightarrow> QFile \<Rightarrow> string \<Rightarrow> manager \<Rightarrow> (install_error + Model) \<times> manager" where
  \<comment> \<open>the temporary directory is made first and, unless \<^verbatim>\<open>setAutoRemove(false)\<close> was
      reached, removed with its contents when \<^verbatim>\<open>writeModel\<close> returns\<close>
  "writeModel_steps ev file filename s =
     (let filename' = (if filename = [] then baseName (fileName file) else filename)
      in case tempDir ev of
           None \<Rightarrow> (Inl TempDirFailed, emit (ErrTempDir (configDir s)) s)
         | Some tmp \<Rightarrow>
             (if \<not> tempDirValid (fs s) tmp
              then (Inl TempDirFailed, emit (ErrTempDir (configDir s)) s)
              else
                (case writeModel_body ev tmp file filename' (s\<lparr>fs := fs_put tmp Dir (fs s)\<rparr>) of
                   (Inl e, s') \<Rightarrow> (Inl e, s'\<lparr>fs := removeTree tmp (fs s')\<rparr>)
                 | (Inr model, s') \<Rightarrow> (Inr model, s'))))"

definition writeModel :: "env \<Rightarrow> QFile \<Rightarrow> string \<Rightarrow> manager \<Rightarrow> Model \<times> manager" where
  "writeModel ev file filename s =
     (case writeModel_steps ev file filename s of
        (Inl e, s') \<Rightarrow> (empty_Model, s')
      | (Inr model, s') \<Rightarrow> (model, s'))"

fun indexOf :: "Model list \<Rightarrow> Model \<Rightarrow> nat \<Rightarrow> nat option" where
  \<comment> \<open>Modelled from the spec: \<^verbatim>\<open>QList::indexOf\<close> compares with \<^verbatim>\<open>Model::operator==\<close>
      of the missing \<^verbatim>\<open>Model.h\<close>; the registry "removes by identity".
      \<open>None\<close> is the index \<^verbatim>\<open>-1\<close>.\<close>
  "indexOf [] model i = None"
| "indexOf (x # rest) model i = (if isSameModel x model then Some i else indexOf rest model (i + 1))"

fun removeOne :: "Model list \<Rightarrow> Model \<Rightarrow> Model list" where
  "removeOne [] model = []"
| "removeOne (x # rest) model = (if isSameModel x model then rest else x # removeOne rest model)"

definition removeModel :: "env \<Rightarrow> Model \<Rightarrow> manager \<Rightarrow> bool \<times> manager" where
  "removeModel ev model s =
     (if \<not> isManagedModel s model then (False, s)
      else
        (let info = filePath (path model) ''model_info.json''
         in case lookup (fs s) info of
              Some (File _ _) \<Rightarrow>
                (let s1 = s\<lparr>fs := filter (\<lambda>e. fst e \<noteq> cleanPath info) (fs s)\<rparr>;
                     s2 = (if removeGranted ev \<and> cleanPath (path model) \<noteq> []
                           then s1\<lparr>fs := removeTree (cleanPath (path model)) (fs s1)\<rparr>
                           else emit (ErrRemoveDir (path model)) s1)
                 in case indexOf (localModels s2) model 0 of
                      None \<Rightarrow> (False, s2)
                    | Some position \<Rightarrow>
                        (True, updateAvailableModels
                                 (emit (RowsRemoved position (position + 1))
                                    (s2\<lparr>localModels := removeOne (localModels s2) model\<rparr>))))
            | _ \<Rightarrow> (False, emit (ErrDeleteInfo (path model)) s)))"

section \<open>Specification predicates\<close>

definition registry_unchanged :: "manager \<Rightarrow> manager \<Rightarrow> bool" where
  \<comment> \<open>the registry and the managed root of \<open>s'\<close> are those of \<open>s\<close>; the disk, the
      current directory and the emitted signals may differ\<close>
  "registry_unchanged s s' =
     (configDir s' = configDir s \<and> localModels s' = localModels s
      \<and> remoteModels s' = remoteModels s \<and> newModels s' = newModels s
      \<and> updatedModels s' = updatedModels s \<and> archives s' = archives s)"


definition identity_key :: "Model \<Rightarrow> string \<times> string \<times> string \<times> string" where
  \<comment> \<open>the fields that \<^const>\<open>isSameModel\<close> compares\<close>
  "identity_key m = (shortName m, src m, trg m, type m)"

definition uniqueByIdentity :: "Model list \<Rightarrow> bool" where
  \<comment> \<open>the registry is "unique by identity": no two entries are the same model\<close>
  "uniqueByIdentity ms = distinct (map identity_key ms)"

definition subtree :: "string \<Rightarrow> filesystem \<Rightarrow> filesystem" where
  \<comment> \<open>what the disk holds at or below the place \<open>d\<close>\<close>
  "subtree d disk = filter (\<lambda>e. inTree d (fst e)) disk"

definition quiet :: "string \<Rightarrow> manager \<Rightarrow> manager \<Rightarrow> bool" where
  \<comment> \<open>registry and current directory unchanged, and the disk unchanged at and below
      the place \<open>d\<close>\<close>
  "quiet d s s' =
     (registry_unchanged s s' \<and> cwd s' = cwd s \<and> subtree d (fs s') = subtree d (fs s))"

definition calm :: "string \<Rightarrow> manager \<Rightarrow> manager \<Rightarrow> bool" where
  \<comment> \<open>registry unchanged, and the disk unchanged at and below the place \<open>d\<close>\<close>
  "calm d s s' = (registry_unchanged s s' \<and> subtree d (fs s') = subtree d (fs s))"

definition confined :: "string \<Rightarrow> bool" where
  \<comment> \<open>a name that stays in the directory it is taken from: relative and without a
      \<^verbatim>\<open>..\<close> component\<close>
  "confined name = (\<not> isAbsolutePath name \<and> ''..'' \<notin> set (splitSep CHR ''/'' name))"

definition residesUnder :: "string \<Rightarrow> string \<Rightarrow> bool" where
  \<comment> \<open>the path \<open>p\<close> names a place below the directory that the path \<open>d\<close> names\<close>
  "residesUnder d p = startsWith (cleanPath p) (cleanPath d @ ''/'')"

definition sparesRoot :: "env \<Rightarrow> QFile \<Rightarrow> manager \<Rightarrow> bool" where
  \<comment> \<open>no entry of the archive is written at or below the managed root\<close>
  "sparesRoot ev file s =
     (case tempDir ev of
        None \<Rightarrow> True
      | Some tmp \<Rightarrow>
          list_all (\<lambda>e. \<not> inTree (cleanPath (configDir s)) (landing tmp e)) (entries file))"

definition scanned_directory :: "string \<Rightarrow> manager \<Rightarrow> manager" where
  \<comment> \<open>what the scan of the directory \<open>current\<close> is to leave: nothing without a
      descriptor, the open error for a descriptor that cannot be opened, and the upsert of
      the parsed model, with the path added, for one that can\<close>
  "scanned_directory current s =
     (case lookup (fs s) (current @ ''/model_info.json'') of
        None \<Rightarrow> s
      | Some Dir \<Rightarrow> emit (ErrOpenJson (current @ ''/model_info.json'')) s
      | Some (File isOpen obj) \<Rightarrow>
          (if isOpen then
             snd (insertLocalModel
               (fst (parseModelInfo (jinsert ''path'' (JString current) obj) Local s)) s)
           else emit (ErrOpenJson (current @ ''/model_info.json'')) s))"

section \<open>Example inputs\<close>

definition modelA :: Model where
  "modelA = empty_Model\<lparr>shortName := ''a'', modelName := ''a'', src := ''a'', trg := ''a'',
     type := ''a'', path := ''/cfg/a-1'', localversion := Some 1\<rparr>"

definition modelB :: Model where
  "modelB = empty_Model\<lparr>shortName := ''b'', modelName := ''b'', src := ''b'', trg := ''b'',
     type := ''b'', path := ''/cfg/b-1'', localversion := Some 1\<rparr>"

definition remoteA :: Model where
  "remoteA = empty_Model\<lparr>shortName := ''a'', modelName := ''a'', src := ''a'', trg := ''a'',
     type := ''a'', url := ''http://host/a.tar.gz'', remoteversion := Some 2,
     remoteAPI := Some 1\<rparr>"

definition remoteB :: Model where
  "remoteB = empty_Model\<lparr>shortName := ''b'', modelName := ''b'', src := ''b'', trg := ''b'',
     type := ''b'', url := ''http://host/b.tar.gz'', remoteversion := Some 1,
     remoteAPI := Some 1\<rparr>"

definition ex_manager :: manager where
  "ex_manager = \<lparr>configDir = ''/cfg'', localModels = [], remoteModels = [], newModels = [],
     updatedModels = [], archives = [],
     fs = [(''/cfg'', Dir), (''/tmp'', Dir), (''/home'', Dir)],
     cwd = ''/home'', signals = []\<rparr>"

definition ex_env :: env where
  "ex_env = \<lparr>tempDir = Some ''/tmp/t1'', secsSinceEpoch = ''17'', renameGranted = True,
     removeGranted = True\<rparr>"

definition ex_entry :: "string \<Rightarrow> node \<Rightarrow> entry" where
  \<comment> \<open>an entry without data that libarchive reads and writes without complaint\<close>
  "ex_entry p n = \<lparr>pathname = p, entry_size = 0, content = n, via_link = None,
     read_next_header = 0, write_header = 0, data_blocks = [], write_finish_entry = 0\<rparr>"

definition ex_archive :: "entry list \<Rightarrow> QFile" where
  "ex_archive es = \<lparr>fileName = ''/dl/m.tar.gz'', opens = True, read_open_fd = 0, entries = es\<rparr>"

definition ex_catalog :: jobject where
  \<comment> \<open>a catalog whose first entry has no \<^verbatim>\<open>url\<close>\<close>
  "ex_catalog = [(''models'', JArray
     [JObject [(''shortName'', JString ''x'')],
      JObject [(''shortName'', JString ''y''), (''url'', JString ''http://host/y.tar.gz'')]])]"

definition evil_archive :: QFile where
  \<comment> \<open>an archive whose one entry has an absolute name below the managed root\<close>
  "evil_archive = ex_archive [ex_entry ''/cfg/evil/f'' (File True [])]"

definition dotdot_archive :: QFile where
  \<comment> \<open>an archive whose one entry has a relative name that leads, from the temporary
      directory \<^verbatim>\<open>/tmp/t1\<close>, below the managed root\<close>
  "dotdot_archive = ex_archive [ex_entry ''../../cfg/evil/f'' (File True [])]"

definition link_archive :: QFile where
  \<comment> \<open>an archive with a link \<^verbatim>\<open>top/link\<close> to the managed root \<^verbatim>\<open>/cfg\<close> and an entry
      that is written through it\<close>
  "link_archive = ex_archive
     [ex_entry ''top/link'' Dir,
      (ex_entry ''top/link/evil/f'' (File True []))\<lparr>via_link := Some ''/cfg/evil/f''\<rparr>]"


definition bad_archive :: QFile where
  \<comment> \<open>a top folder without a descriptor\<close>
  "bad_archive = ex_archive [ex_entry ''top/'' Dir, ex_entry ''top/model.bin'' (File True [])]"

definition scan_manager :: manager where
  \<comment> \<open>the managed root holds the directory \<^verbatim>\<open>x\<close>, whose \<^verbatim>\<open>model_info.json\<close> is the
      empty object, and the directory \<^verbatim>\<open>y\<close> without a descriptor\<close>
  "scan_manager = ex_manager\<lparr>fs :=
     [(''/cfg'', Dir), (''/cfg/x'', Dir), (''/cfg/x/model_info.json'', File True []),
      (''/cfg/y'', Dir)]\<rparr>"


definition sibling_manager :: manager where
  \<comment> \<open>beside the managed root \<^verbatim>\<open>/cfg\<close> lies the directory \<^verbatim>\<open>/cfg2\<close>, which holds a
      package that a scan has registered\<close>
  "sibling_manager = ex_manager\<lparr>
     localModels := [modelB\<lparr>path := ''/cfg2/b''\<rparr>],
     fs := [(''/cfg'', Dir), (''/cfg2'', Dir), (''/cfg2/b'', Dir),
            (''/cfg2/b/model_info.json'', File True []), (''/home'', Dir), (''/tmp'', Dir)]\<rparr>"


section \<open>The registry: upsert\<close>

lemma isSameModel_refl: "isSameModel m m"
  by (simp add: isSameModel_def)

lemma insertLocalModel_loop_first_match:
  "n < length xs \<Longrightarrow> isSameModel (xs ! n) m \<Longrightarrow> \<forall>j<n. \<not> isSameModel (xs ! j) m \<Longrightarrow>
   insertLocalModel_loop m xs k p = Inl (k + n)"
proof (induction xs arbitrary: n k p)
  case Nil
  then show ?case by simp
next
  case (Cons x xs)
  show ?case
  proof (cases n)
    case 0
    with Cons.prems show ?thesis by simp
  next
    case (Suc n')
    from Cons.prems Suc have "\<not> isSameModel x m" by auto
    moreover from Cons.prems Suc have "n' < length xs" "isSameModel (xs ! n') m"
      "\<forall>j<n'. \<not> isSameModel (xs ! j) m" by auto
    ultimately show ?thesis using Cons.IH [of n' "k + 1"] Suc by simp
  qed
qed

lemma insertLocalModel_loop_no_match:
  "\<forall>x\<in>set xs. \<not> isSameModel x m \<Longrightarrow> \<exists>pos. insertLocalModel_loop m xs k p = Inr pos"
  by (induction xs arbitrary: k p) auto

lemma insertLocalModel_appends:
  assumes "\<forall>x\<in>set (localModels s). \<not> isSameModel x m"
  shows "fst (insertLocalModel m s) = True
       \<and> localModels (snd (insertLocalModel m s)) = localModels s @ [m]"
proof -
  obtain pos where "insertLocalModel_loop m (localModels s) 0 0 = Inr pos"
    using insertLocalModel_loop_no_match [OF assms] by blast
  then show ?thesis by (simp add: insertLocalModel_def emit_def)
qed

lemma isSameModel_identity_key: "isSameModel a b = (identity_key a = identity_key b)"
  by (auto simp add: isSameModel_def identity_key_def)

lemma uniqueByIdentity_first_match:
  assumes "uniqueByIdentity ms" and "i < length ms" and "isSameModel (ms ! i) m"
  shows "\<forall>j<i. \<not> isSameModel (ms ! j) m"
proof (intro allI impI notI)
  fix j assume j: "j < i" and sm: "isSameModel (ms ! j) m"
  have d: "distinct (map identity_key ms)"
    using assms(1) by (simp add: uniqueByIdentity_def)
  have eq: "map identity_key ms ! j = map identity_key ms ! i"
    using assms(2,3) j sm by (simp add: isSameModel_identity_key)
  have "j = i"
    using nth_eq_iff_index_eq [OF d, of j i] eq assms(2) j by simp
  with j show False by simp
qed

lemma uniqueByIdentity_update:
  assumes "uniqueByIdentity ms" and "i < length ms" and "isSameModel (ms ! i) m"
  shows "uniqueByIdentity (ms[i := m])"
proof -
  have "map identity_key (ms[i := m]) = (map identity_key ms)[i := identity_key (ms ! i)]"
    using assms(3) by (simp add: map_update isSameModel_identity_key)
  also have "\<dots> = map identity_key ms"
    using assms(2) by (simp add: list_update_same_conv)
  finally show ?thesis using assms(1) by (simp add: uniqueByIdentity_def)
qed

lemma insertLocalModel_loop_match:
  "\<exists>x\<in>set xs. isSameModel x m \<Longrightarrow>
   \<exists>i. insertLocalModel_loop m xs k p = Inl i \<and> k \<le> i \<and> i < k + length xs"
proof (induction xs arbitrary: k p)
  case Nil
  then show ?case by simp
next
  case (Cons x xs)
  show ?case
  proof (cases "isSameModel x m")
    case True
    then show ?thesis by simp
  next
    case False
    with Cons.prems have "\<exists>x\<in>set xs. isSameModel x m" by simp
    then obtain i where "insertLocalModel_loop m xs (k + 1)
        (if model_less x m then k + 1 else p) = Inl i" "k + 1 \<le> i" "i < k + 1 + length xs"
      using Cons.IH [of "k + 1" "if model_less x m then k + 1 else p"] by blast
    with False show ?thesis by auto
  qed
qed

lemma insertLocalModel_existing:
  assumes "\<exists>x\<in>set (localModels s). isSameModel x m"
  shows "fst (insertLocalModel m s) = False
       \<and> length (localModels (snd (insertLocalModel m s))) = length (localModels s)"
proof -
  obtain i where "insertLocalModel_loop m (localModels s) 0 0 = Inl i"
    using insertLocalModel_loop_match [OF assms, of 0 0] by blast
  then show ?thesis by (simp add: insertLocalModel_def emit_def)
qed

lemma insertLocalModel_then_present:
  "\<exists>x\<in>set (localModels (snd (insertLocalModel m s))). isSameModel x m"
proof (cases "insertLocalModel_loop m (localModels s) 0 0")
  case (Inl i)
  have "\<exists>x\<in>set (localModels s). isSameModel x m"
  proof (rule ccontr)
    assume "\<not> ?thesis"
    then obtain pos where "insertLocalModel_loop m (localModels s) 0 0 = Inr pos"
      using insertLocalModel_loop_no_match [of "localModels s" m 0 0] by blast
    with Inl show False by simp
  qed
  then obtain j where j: "insertLocalModel_loop m (localModels s) 0 0 = Inl j" "j < length (localModels s)"
    using insertLocalModel_loop_match [of "localModels s" m 0 0] by auto
  then have "m \<in> set ((localModels s)[j := m])"
    by (simp add: set_update_memI)
  then show ?thesis
    using j isSameModel_refl [of m] by (auto simp add: insertLocalModel_def emit_def)
next
  case (Inr pos)
  then show ?thesis
    using isSameModel_refl [of m] by (simp add: insertLocalModel_def emit_def)
qed

lemma insertLocalModel_twice:
  assumes "isSameModel m m'"
  shows "fst (insertLocalModel m' (snd (insertLocalModel m s))) = False
       \<and> length (localModels (snd (insertLocalModel m' (snd (insertLocalModel m s)))))
           = length (localModels (snd (insertLocalModel m s)))"
proof -
  obtain x where "x \<in> set (localModels (snd (insertLocalModel m s)))" "isSameModel x m"
    using insertLocalModel_then_present [of m s] by blast
  then have "\<exists>x\<in>set (localModels (snd (insertLocalModel m s))). isSameModel x m'"
    using assms by (auto simp add: isSameModel_identity_key)
  then show ?thesis by (rule insertLocalModel_existing)
qed

text \<open>
  Claim C7. In a registry that is unique by identity, when the model's identity key
  matches the entry at position \<open>i\<close> of \<open>localModels\<close>, \<open>insertLocalModel\<close> overwrites
  that entry in place: it returns false, the list is the old one with position \<open>i\<close>
  replaced by the model, its length is unchanged, and the registry is still unique by
  identity (no duplicate is created). So a second install of the same package, which
  upserts a model of the same identity, overwrites the entry of the first
  (\<open>insertLocalModel_twice\<close>).
\<close>

theorem insertLocalModel_overwrites_in_place:
  assumes "uniqueByIdentity (localModels s)"
    and "i < length (localModels s)"
    and "isSameModel (localModels s ! i) m"
  shows "fst (insertLocalModel m s) = False
       \<and> localModels (snd (insertLocalModel m s)) = (localModels s)[i := m]
       \<and> length (localModels (snd (insertLocalModel m s))) = length (localModels s)
       \<and> localModels (snd (insertLocalModel m s)) ! i = m
       \<and> uniqueByIdentity (localModels (snd (insertLocalModel m s)))"
proof -
  have first: "\<forall>j<i. \<not> isSameModel (localModels s ! j) m"
    using uniqueByIdentity_first_match [OF assms] .
  have loop: "insertLocalModel_loop m (localModels s) 0 0 = Inl i"
    using insertLocalModel_loop_first_match [OF assms(2,3) first, of 0 0] by simp
  show ?thesis
    using assms(2) uniqueByIdentity_update [OF assms]
    by (simp add: insertLocalModel_def loop emit_def)
qed

theorem insertLocalModel_overwrites_in_place_witness:
  "uniqueByIdentity [modelB, modelA]
   \<and> isSameModel ([modelB, modelA] ! 1) (modelA\<lparr>path := ''/cfg/a-2''\<rparr>)
   \<and> fst (insertLocalModel (modelA\<lparr>path := ''/cfg/a-2''\<rparr>)
          (ex_manager\<lparr>localModels := [modelB, modelA]\<rparr>)) = False
   \<and> localModels (snd (insertLocalModel (modelA\<lparr>path := ''/cfg/a-2''\<rparr>)
          (ex_manager\<lparr>localModels := [modelB, modelA]\<rparr>)))
       = [modelB, modelA\<lparr>path := ''/cfg/a-2''\<rparr>]"
proof -
  have h1: "uniqueByIdentity (localModels (ex_manager\<lparr>localModels := [modelB, modelA]\<rparr>))"
    by (simp add: uniqueByIdentity_def identity_key_def modelA_def modelB_def empty_Model_def)
  have h2: "1 < length (localModels (ex_manager\<lparr>localModels := [modelB, modelA]\<rparr>))"
    by simp
  have h3: "isSameModel (localModels (ex_manager\<lparr>localModels := [modelB, modelA]\<rparr>) ! 1)
              (modelA\<lparr>path := ''/cfg/a-2''\<rparr>)"
    by (simp add: isSameModel_def)
  show ?thesis
    using insertLocalModel_overwrites_in_place [OF h1 h2 h3] h1 h3 by simp
qed

text \<open>
  Claim C3. The claim asks that a model matching no entry is inserted at the position
  that keeps \<open>localModels\<close> sorted. \<open>insertLocalModel\<close> computes that position and
  announces it, but appends the model at the end: inserting \<open>modelA\<close> into the registry
  \<open>[modelB]\<close>, with \<open>modelA\<close> less than \<open>modelB\<close>, returns true, announces row 0 and
  leaves \<open>[modelB, modelA]\<close>, which is not sorted.
\<close>

theorem insertLocalModel_appends_out_of_order:
  "fst (insertLocalModel modelA (ex_manager\<lparr>localModels := [modelB]\<rparr>)) = True
   \<and> localModels (snd (insertLocalModel modelA (ex_manager\<lparr>localModels := [modelB]\<rparr>)))
       = [modelB, modelA]
   \<and> signals (snd (insertLocalModel modelA (ex_manager\<lparr>localModels := [modelB]\<rparr>)))
       = [RowsInserted 0 1]
   \<and> model_less modelA modelB
   \<and> \<not> sorted_wrt (\<lambda>a b. \<not> model_less b a)
         (localModels (snd (insertLocalModel modelA (ex_manager\<lparr>localModels := [modelB]\<rparr>))))"
  by (simp add: insertLocalModel_def isSameModel_def model_less_def order_key_def emit_def
      modelA_def modelB_def empty_Model_def ex_manager_def)

section \<open>Reconciliation\<close>

text \<open>
  Claim C2. With the local set \<open>{A}\<close> at version \<open>v1\<close> and the remote set \<open>{Ar, B}\<close>
  (in either order), where \<open>Ar\<close> has the identity of \<open>A\<close> and a newer version \<open>v2\<close> and
  \<open>B\<close> matches no local model, \<open>updateAvailableModels\<close> yields \<open>newModels = [B]\<close> and
  \<open>updatedModels = [Ar]\<close>, and the stored local entry carries the remote version \<open>v2\<close>
  and the remote API level of \<open>Ar\<close>.
\<close>

theorem updateAvailableModels_totals:
  assumes loc: "localModels s = [A]"
    and rem: "remoteModels s = [Ar, B] \<or> remoteModels s = [B, Ar]"
    and same: "isSameModel A Ar"
    and other: "\<not> isSameModel A B"
    and local: "isLocal A"
    and v1: "localversion A = Some v1"
    and v2: "remoteversion Ar = Some v2"
    and newer: "v1 < v2"
  shows "newModels (updateAvailableModels s) = [B]
       \<and> updatedModels (updateAvailableModels s) = [Ar]
       \<and> localModels (updateAvailableModels s)
           = [A\<lparr>remoteversion := Some v2, remoteAPI := remoteAPI Ar\<rparr>]"
proof -
  let ?A' = "A\<lparr>remoteversion := Some v2, remoteAPI := remoteAPI Ar\<rparr>"
  have out: "outdated ?A'"
    using local v1 newer by (simp add: outdated_def isLocal_def)
  have same': "isSameModel ?A' Ar" "\<not> isSameModel ?A' B"
    using same other by (simp_all add: isSameModel_def)
  have stepA: "\<And>t. localModels t = [A] \<or> localModels t = [?A'] \<Longrightarrow>
      updateAvailableModels_step Ar t
        = (emit (DataChanged 0) (t\<lparr>localModels := [?A']\<rparr>))
            \<lparr>updatedModels := updatedModels t @ [Ar]\<rparr>"
    using same same' out v2
    by (auto simp add: updateAvailableModels_step_def Let_def emit_def)
  have stepB: "\<And>t. localModels t = [A] \<or> localModels t = [?A'] \<Longrightarrow>
      updateAvailableModels_step B t = t\<lparr>newModels := newModels t @ [B]\<rparr>"
    using other same'
    by (auto simp add: updateAvailableModels_step_def)
  from rem show ?thesis
  proof
    assume "remoteModels s = [Ar, B]"
    then show ?thesis
      by (simp add: updateAvailableModels_def stepA stepB loc emit_def)
  next
    assume "remoteModels s = [B, Ar]"
    then show ?thesis
      by (simp add: updateAvailableModels_def stepA stepB loc emit_def)
  qed
qed

theorem updateAvailableModels_totals_witness:
  "newModels (updateAvailableModels
      (ex_manager\<lparr>localModels := [modelA], remoteModels := [remoteA, remoteB]\<rparr>)) = [remoteB]
   \<and> updatedModels (updateAvailableModels
      (ex_manager\<lparr>localModels := [modelA], remoteModels := [remoteA, remoteB]\<rparr>)) = [remoteA]
   \<and> localModels (updateAvailableModels
      (ex_manager\<lparr>localModels := [modelA], remoteModels := [remoteA, remoteB]\<rparr>))
       = [modelA\<lparr>remoteversion := Some 2, remoteAPI := Some 1\<rparr>]"
  using updateAvailableModels_totals
    [of "ex_manager\<lparr>localModels := [modelA], remoteModels := [remoteA, remoteB]\<rparr>"
        modelA remoteA remoteB 1 2]
  by (simp add: isSameModel_def isLocal_def modelA_def remoteA_def remoteB_def empty_Model_def)

section \<open>The remote catalog\<close>

lemma remoteModels_updateAvailableModels_step [simp]:
  "remoteModels (updateAvailableModels_step m s) = remoteModels s"
  by (simp add: updateAvailableModels_step_def Let_def emit_def split: option.split)

lemma remoteModels_fold_step [simp]:
  "remoteModels (fold updateAvailableModels_step ms s) = remoteModels s"
  by (induction ms arbitrary: s) simp_all

lemma remoteModels_updateAvailableModels [simp]:
  "remoteModels (updateAvailableModels s) = remoteModels s"
  by (simp add: updateAvailableModels_def emit_def)

lemma parseModelInfo_remoteModels [simp]:
  "remoteModels (snd (parseModelInfo obj loc s)) = remoteModels s"
  by (simp add: parseModelInfo_def Let_def emit_def split: option.split)

lemma parseRemoteModels_loop_length:
  "length (remoteModels (parseRemoteModels_loop arr s)) = length (remoteModels s) + length arr"
proof (induction arr arbitrary: s)
  case Nil
  then show ?case by simp
next
  case (Cons v arr)
  obtain model s1 where p: "parseModelInfo (toObject v) Remote s = (model, s1)"
    by (cases "parseModelInfo (toObject v) Remote s")
  have "remoteModels s1 = remoteModels s"
    using parseModelInfo_remoteModels [of "toObject v" Remote s] p by simp
  then show ?case using Cons.IH [of "s1\<lparr>remoteModels := remoteModels s1 @ [model]\<rparr>"] p
    by simp
qed

lemma parseRemoteModels_sorted_all_kept:
  "sorted (map order_key (remoteModels (parseRemoteModels obj s)))
   \<and> length (remoteModels (parseRemoteModels obj s)) = length (toArray (jfind obj ''models''))"
  by (simp add: parseRemoteModels_def Let_def parseRemoteModels_loop_length)

text \<open>
  Claim C5. The claim asks that a catalog entry without \<open>url\<close> is discarded, so that
  \<open>remoteModels\<close> holds no sentinel empty Model. \<open>parseRemoteModels\<close> appends whatever
  \<open>parseModelInfo\<close> returns: for the catalog \<open>ex_catalog\<close>, whose first entry has no
  \<open>url\<close>, the error is emitted, but the sentinel is kept in \<open>remoteModels\<close> and is
  offered in \<open>newModels\<close>.
\<close>

theorem parseRemoteModels_keeps_sentinel:
  "remoteModels (parseRemoteModels ex_catalog ex_manager)
     = [empty_Model, empty_Model\<lparr>shortName := ''y'', url := ''http://host/y.tar.gz''\<rparr>]
   \<and> empty_Model \<in> set (newModels (parseRemoteModels ex_catalog ex_manager))
   \<and> ErrMissingKey ''url'' \<in> set (signals (parseRemoteModels ex_catalog ex_manager))"
  by (simp add: parseRemoteModels_def updateAvailableModels_def updateAvailableModels_step_def
      parseModelInfo_def keysSTR_def keysFLT_def jfind_def set_string_def set_float_def
      emit_def ex_catalog_def ex_manager_def empty_Model_def order_key_def Let_def)

section \<open>Removal\<close>

lemma removeModel_refuses:
  "\<not> isManagedModel s model \<Longrightarrow> removeModel ev model s = (False, s)"
  by (simp add: removeModel_def)

text \<open>
  Claim C4. The claim asks that the removal of a model whose path does not reside under
  the managed root is refused and changes nothing. \<open>isManagedModel\<close> tests whether the
  path starts with the text of the root, without a separator after it: in
  \<open>sibling_manager\<close> the package \<open>/cfg2/b\<close> lies beside the managed root \<open>/cfg\<close>, not
  under it, but counts as managed, and \<open>removeModel\<close> returns true, deletes its
  directory and takes it from the registry.
\<close>

theorem removeModel_sibling_directory:
  "\<not> residesUnder (configDir sibling_manager) ''/cfg2/b''
   \<and> isManagedModel sibling_manager (modelB\<lparr>path := ''/cfg2/b''\<rparr>)
   \<and> fst (removeModel ex_env (modelB\<lparr>path := ''/cfg2/b''\<rparr>) sibling_manager) = True
   \<and> lookup (fs sibling_manager) ''/cfg2/b'' = Some Dir
   \<and> lookup (fs (snd (removeModel ex_env (modelB\<lparr>path := ''/cfg2/b''\<rparr>) sibling_manager)))
        ''/cfg2/b'' = None
   \<and> localModels sibling_manager = [modelB\<lparr>path := ''/cfg2/b''\<rparr>]
   \<and> localModels (snd (removeModel ex_env (modelB\<lparr>path := ''/cfg2/b''\<rparr>) sibling_manager)) = []"
  by code_simp

section \<open>The common prefix of the extracted paths\<close>

lemma mismatch_take: "take (mismatch a b) b = take (mismatch a b) a"
  by (induction a b rule: mismatch.induct) simp_all

lemma mismatch_prefix1: "prefix (take (mismatch a b) a) a"
  by (rule take_is_prefix)

lemma mismatch_prefix2: "prefix (take (mismatch a b) a) b"
  using take_is_prefix [of "mismatch a b" b] by (simp add: mismatch_take)

lemma mismatch_greatest: "prefix c a \<Longrightarrow> prefix c b \<Longrightarrow> prefix c (take (mismatch a b) a)"
proof (induction a b arbitrary: c rule: mismatch.induct)
  case (1 x xs y ys)
  show ?case
  proof (cases c)
    case Nil
    then show ?thesis by simp
  next
    case (Cons z zs)
    with "1.prems" have "z = x" "z = y" "prefix zs xs" "prefix zs ys" by auto
    then show ?thesis using "1.IH" [of zs] Cons by simp
  qed
qed auto

lemma getCommonPrefixPath_loop_step:
  "getCommonPrefixPath_loop pfx (it # rest)
     = getCommonPrefixPath_loop (take (mismatch pfx it) pfx) rest"
  using mismatch_take [of pfx it]
  by (cases "mismatch pfx it = length pfx") (simp_all add: Let_def)

lemma getCommonPrefixPath_loop_common:
  "prefix (getCommonPrefixPath_loop pfx rest) pfx
   \<and> (\<forall>r\<in>set rest. prefix (getCommonPrefixPath_loop pfx rest) r)"
proof (induction rest arbitrary: pfx)
  case Nil
  then show ?case by simp
next
  case (Cons it rest)
  let ?p = "take (mismatch pfx it) pfx"
  have IH: "prefix (getCommonPrefixPath_loop ?p rest) ?p"
    "\<forall>r\<in>set rest. prefix (getCommonPrefixPath_loop ?p rest) r"
    using Cons.IH [of ?p] by simp_all
  have "prefix (getCommonPrefixPath_loop ?p rest) pfx"
    using IH(1) mismatch_prefix1 [of pfx it] prefix_order.trans by blast
  moreover have "prefix (getCommonPrefixPath_loop ?p rest) it"
    using IH(1) mismatch_prefix2 [of pfx it] prefix_order.trans by blast
  ultimately show ?case
    using IH(2) by (simp only: getCommonPrefixPath_loop_step) simp
qed

lemma getCommonPrefixPath_loop_greatest:
  "prefix c pfx \<Longrightarrow> \<forall>r\<in>set rest. prefix c r \<Longrightarrow> prefix c (getCommonPrefixPath_loop pfx rest)"
proof (induction rest arbitrary: pfx)
  case Nil
  then show ?case by simp
next
  case (Cons it rest)
  have "prefix c (take (mismatch pfx it) pfx)"
    using Cons.prems by (simp add: mismatch_greatest)
  then have "prefix c (getCommonPrefixPath_loop (take (mismatch pfx it) pfx) rest)"
    using Cons.IH Cons.prems by simp
  then show ?case by (simp only: getCommonPrefixPath_loop_step)
qed

lemma splitSep_not_Nil: "splitSep sep s \<noteq> []"
  by (induction s) (auto split: list.split)

lemma splitSep_append: "splitSep sep (a @ sep # b) = splitSep sep a @ splitSep sep b"
proof (induction a)
  case Nil
  then show ?case by simp
next
  case (Cons c a)
  obtain f fs where "splitSep sep a = f # fs"
    using splitSep_not_Nil [of sep a] by (cases "splitSep sep a") auto
  with Cons show ?case by simp
qed

lemma splitSep_flat: "sep \<notin> set r \<Longrightarrow> splitSep sep r = [r]"
  by (induction r) auto

lemma joinSep_splitSep: "joinSep sep (splitSep sep s) = s"
proof (induction s)
  case Nil
  then show ?case by simp
next
  case (Cons c s)
  obtain f fs where fs: "splitSep sep s = f # fs"
    using splitSep_not_Nil [of sep s] by (cases "splitSep sep s") auto
  with Cons show ?case by (cases fs) auto
qed

lemma qsection_dirname:
  assumes "CHR ''/'' \<notin> set r"
  shows "qsection (d @ CHR ''/'' # r) CHR ''/'' 0 (- 2) = d"
proof -
  have split: "splitSep CHR ''/'' (d @ CHR ''/'' # r) = splitSep CHR ''/'' d @ [r]"
    using splitSep_append [of "CHR ''/''" d r] splitSep_flat [OF assms] by simp
  have "length (splitSep CHR ''/'' d) > 0"
    using splitSep_not_Nil [of "CHR ''/''" d] by simp
  then show ?thesis
    by (simp add: qsection_def split Let_def joinSep_splitSep)
qed

lemma qsection_dirname_iff:
  "(qsection (d @ CHR ''/'' # r) CHR ''/'' 0 (- 2) = d) = (CHR ''/'' \<notin> set r)"
proof
  assume "CHR ''/'' \<notin> set r"
  then show "qsection (d @ CHR ''/'' # r) CHR ''/'' 0 (- 2) = d"
    by (rule qsection_dirname)
next
  assume eq: "qsection (d @ CHR ''/'' # r) CHR ''/'' 0 (- 2) = d"
  show "CHR ''/'' \<notin> set r"
  proof
    assume "CHR ''/'' \<in> set r"
    then obtain a b where r: "r = a @ CHR ''/'' # b" and b: "CHR ''/'' \<notin> set b"
      using split_list_last [of "CHR ''/''" r] by blast
    have "qsection ((d @ CHR ''/'' # a) @ CHR ''/'' # b) CHR ''/'' 0 (- 2) = d @ CHR ''/'' # a"
      using b by (rule qsection_dirname)
    with eq r show False by simp
  qed
qed

lemma getCommonPrefixPath_below:
  assumes "names \<noteq> []"
  shows "\<exists>l. (\<forall>n\<in>set names. prefix l n)
           \<and> (\<forall>c. (\<forall>n\<in>set names. prefix c n) \<longrightarrow> prefix c l)
           \<and> getCommonPrefixPath (map (\<lambda>n. d @ CHR ''/'' # n) names)
               = qsection (d @ CHR ''/'' # l) CHR ''/'' 0 (- 2)"
proof -
  obtain n0 rest where names: "names = n0 # rest"
    using assms by (cases names) auto
  let ?paths = "map (\<lambda>n. d @ CHR ''/'' # n) rest"
  let ?L = "getCommonPrefixPath_loop (d @ CHR ''/'' # n0) ?paths"
  have common: "prefix ?L (d @ CHR ''/'' # n0)" "\<forall>r\<in>set ?paths. prefix ?L r"
    using getCommonPrefixPath_loop_common [of "d @ CHR ''/'' # n0" ?paths] by simp_all
  have "prefix (d @ [CHR ''/'']) ?L"
    by (rule getCommonPrefixPath_loop_greatest) auto
  then obtain l where l: "?L = d @ CHR ''/'' # l"
    by (auto simp: prefix_def)
  have 1: "\<forall>n\<in>set names. prefix l n"
    using common names l by auto
  have 2: "\<forall>c. (\<forall>n\<in>set names. prefix c n) \<longrightarrow> prefix c l"
  proof (intro allI impI)
    fix c assume c: "\<forall>n\<in>set names. prefix c n"
    have "prefix (d @ CHR ''/'' # c) ?L"
      by (rule getCommonPrefixPath_loop_greatest) (use c names in auto)
    then show "prefix c l" by (simp add: l)
  qed
  have 3: "getCommonPrefixPath (map (\<lambda>n. d @ CHR ''/'' # n) names)
             = qsection (d @ CHR ''/'' # l) CHR ''/'' 0 (- 2)"
    by (simp add: getCommonPrefixPath_def names l)
  show ?thesis using 1 2 3 by blast
qed

lemma getCommonPrefixPath_below_iff:
  assumes "names \<noteq> []"
  shows "(getCommonPrefixPath (map (\<lambda>n. d @ CHR ''/'' # n) names) = d)
       = (\<forall>c. (\<forall>n\<in>set names. prefix c n) \<longrightarrow> CHR ''/'' \<notin> set c)"
proof -
  obtain l where l: "\<forall>n\<in>set names. prefix l n"
      "\<forall>c. (\<forall>n\<in>set names. prefix c n) \<longrightarrow> prefix c l"
      "getCommonPrefixPath (map (\<lambda>n. d @ CHR ''/'' # n) names)
         = qsection (d @ CHR ''/'' # l) CHR ''/'' 0 (- 2)"
    using getCommonPrefixPath_below [OF assms, of d] by blast
  have "(CHR ''/'' \<notin> set l) = (\<forall>c. (\<forall>n\<in>set names. prefix c n) \<longrightarrow> CHR ''/'' \<notin> set c)"
  proof
    assume no: "CHR ''/'' \<notin> set l"
    show "\<forall>c. (\<forall>n\<in>set names. prefix c n) \<longrightarrow> CHR ''/'' \<notin> set c"
    proof (intro allI impI)
      fix c assume "\<forall>n\<in>set names. prefix c n"
      then have "prefix c l" using l(2) by blast
      then have "set c \<subseteq> set l" by (rule set_mono_prefix)
      with no show "CHR ''/'' \<notin> set c" by blast
    qed
  next
    assume "\<forall>c. (\<forall>n\<in>set names. prefix c n) \<longrightarrow> CHR ''/'' \<notin> set c"
    then show "CHR ''/'' \<notin> set l" using l(1) by blast
  qed
  then show ?thesis
    by (simp add: l(3) qsection_dirname_iff)
qed

text \<open>
  Claim C8, as amended. The paths are \<open>filePath dest name\<close> for entry names below a
  destination that is not empty and does not end in a slash. The common prefix of exactly
  one path is the directory that holds this path (\<open>dest/sub\<close> for the entry name
  \<open>sub/f\<close>), so it is the destination itself exactly when the entry name holds no slash.
  For \<open>N > 0\<close> paths that all live under one top folder (names \<open>folder/n\<close>, with \<open>n\<close>
  empty for the folder's own entry), the common prefix is that folder below the destination
  exactly when no common prefix of the names \<open>n\<close> holds a slash, that is unless all of
  them lie in one and the same directory further down.
\<close>

theorem getCommonPrefixPath_of_extraction:
  assumes "dest \<noteq> []" and "last dest \<noteq> CHR ''/''"
  shows "(sub \<noteq> [] \<and> \<not> isAbsolutePath sub \<and> CHR ''/'' \<notin> set f \<longrightarrow>
            getCommonPrefixPath (map (filePath dest) [sub @ ''/'' @ f]) = dest @ ''/'' @ sub)
       \<and> (f \<noteq> [] \<and> \<not> isAbsolutePath f \<longrightarrow>
            (getCommonPrefixPath (map (filePath dest) [f]) = dest) = (CHR ''/'' \<notin> set f))
       \<and> (names \<noteq> [] \<and> folder \<noteq> [] \<and> CHR ''/'' \<notin> set folder \<longrightarrow>
            (getCommonPrefixPath (map (\<lambda>n. filePath dest (folder @ ''/'' @ n)) names)
               = dest @ ''/'' @ folder)
            = (\<forall>c. (\<forall>n\<in>set names. prefix c n) \<longrightarrow> CHR ''/'' \<notin> set c))"
proof (intro conjI impI)
  assume f: "sub \<noteq> [] \<and> \<not> isAbsolutePath sub \<and> CHR ''/'' \<notin> set f"
  then have "filePath dest (sub @ ''/'' @ f) = (dest @ ''/'' @ sub) @ CHR ''/'' # f"
    using assms by (cases sub) (auto simp: filePath_def isAbsolutePath_def)
  moreover have "\<forall>c. prefix c f \<longrightarrow> CHR ''/'' \<notin> set c"
    using f by (auto dest: set_mono_prefix)
  ultimately show "getCommonPrefixPath (map (filePath dest) [sub @ ''/'' @ f]) = dest @ ''/'' @ sub"
    using getCommonPrefixPath_below_iff [of "[f]" "dest @ ''/'' @ sub"] by simp
next
  assume f: "f \<noteq> [] \<and> \<not> isAbsolutePath f"
  then have fp: "filePath dest f = dest @ CHR ''/'' # f"
    using assms by (simp add: filePath_def)
  have "(\<forall>c. prefix c f \<longrightarrow> CHR ''/'' \<notin> set c) = (CHR ''/'' \<notin> set f)"
    by (auto dest: set_mono_prefix)
  then show "(getCommonPrefixPath (map (filePath dest) [f]) = dest) = (CHR ''/'' \<notin> set f)"
    using getCommonPrefixPath_below_iff [of "[f]" dest] fp by simp
next
  assume a: "names \<noteq> [] \<and> folder \<noteq> [] \<and> CHR ''/'' \<notin> set folder"
  then have "\<And>n. filePath dest (folder @ ''/'' @ n) = (dest @ ''/'' @ folder) @ CHR ''/'' # n"
    using assms by (cases folder) (auto simp: filePath_def isAbsolutePath_def)
  then show "(getCommonPrefixPath (map (\<lambda>n. filePath dest (folder @ ''/'' @ n)) names)
               = dest @ ''/'' @ folder)
            = (\<forall>c. (\<forall>n\<in>set names. prefix c n) \<longrightarrow> CHR ''/'' \<notin> set c)"
    using getCommonPrefixPath_below_iff [of names "dest @ ''/'' @ folder"] a by simp
qed

theorem getCommonPrefixPath_of_extraction_witness:
  "getCommonPrefixPath (map (filePath ''/tmp/t1'') [''top'' @ ''/'' @ ''model_info.json''])
     = ''/tmp/t1'' @ ''/'' @ ''top''
   \<and> getCommonPrefixPath (map (filePath ''/tmp/t1'') [''model_info.json'']) = ''/tmp/t1''
   \<and> getCommonPrefixPath
         (map (\<lambda>n. filePath ''/tmp/t1'' (''top'' @ ''/'' @ n))
            [[], ''model_info.json'', ''sub/vocab''])
       = ''/tmp/t1'' @ ''/'' @ ''top''"
proof -
  have h1: "''/tmp/t1'' \<noteq> []" and h2: "last ''/tmp/t1'' \<noteq> CHR ''/''"
    by simp_all
  have h3: "\<forall>c. (\<forall>n\<in>set [[], ''model_info.json'', ''sub/vocab'']. prefix c n)
              \<longrightarrow> CHR ''/'' \<notin> set c"
    by simp
  show ?thesis
    using getCommonPrefixPath_of_extraction
      [OF h1 h2, where sub = "''top''" and f = "''model_info.json''"
         and names = "[[], ''model_info.json'', ''sub/vocab'']" and folder = "''top''"] h3
    by (simp add: isAbsolutePath_def)
qed

text \<open>
  Claim C8 as stated fails. An extraction that yields exactly one path, for the entry
  \<open>top/a\<close>, has the common prefix \<open>/tmp/top\<close>, not the destination \<open>/tmp\<close>; and two
  paths that both live under the top folder \<open>top\<close>, in \<open>top/sub\<close>, have the common prefix
  \<open>/tmp/top/sub\<close>, not the top folder.
\<close>

theorem getCommonPrefixPath_nested_counterexample:
  "fst (snd (extractTarGz (ex_archive [ex_entry ''top/a'' (File True [])]) ''/tmp'' [] ex_manager))
     = [''/tmp/top/a'']
   \<and> getCommonPrefixPath
        (fst (snd (extractTarGz (ex_archive [ex_entry ''top/a'' (File True [])]) ''/tmp'' [] ex_manager)))
       \<noteq> ''/tmp''
   \<and> fst (snd (extractTarGz
           (ex_archive [ex_entry ''top/sub/a'' (File True []), ex_entry ''top/sub/b'' (File True [])])
           ''/tmp'' [] ex_manager))
       = [''/tmp/top/sub/a'', ''/tmp/top/sub/b'']
   \<and> getCommonPrefixPath
        (fst (snd (extractTarGz
           (ex_archive [ex_entry ''top/sub/a'' (File True []), ex_entry ''top/sub/b'' (File True [])])
           ''/tmp'' [] ex_manager)))
       \<noteq> ''/tmp/top''"
  by code_simp

section \<open>Paths and places\<close>








section \<open>The disk during an extraction\<close>






lemma registry_unchanged_refl [simp]: "registry_unchanged s s"
  by (simp add: registry_unchanged_def)

lemma registry_unchanged_trans:
  "registry_unchanged s t \<Longrightarrow> registry_unchanged t u \<Longrightarrow> registry_unchanged s u"
  by (simp add: registry_unchanged_def)

lemma registry_unchanged_emit [simp]: "registry_unchanged s (emit sig t) = registry_unchanged s t"
  by (simp add: registry_unchanged_def emit_def)

lemma registry_unchanged_fs [simp]: "registry_unchanged s (t\<lparr>fs := d\<rparr>) = registry_unchanged s t"
  by (simp add: registry_unchanged_def)

lemma fs_emit [simp]: "fs (emit sig s) = fs s"
  by (simp add: emit_def)

lemma cwd_emit [simp]: "cwd (emit sig s) = cwd s"
  by (simp add: emit_def)

lemma copy_data_frame:
  "registry_unchanged s (snd (copy_data blocks s)) \<and> fs (snd (copy_data blocks s)) = fs s
   \<and> cwd (snd (copy_data blocks s)) = cwd s"
  by (induction blocks s rule: copy_data.induct) (simp_all add: warn_def)











section \<open>What a failed install leaves below the managed root\<close>

lemma subtree_fs_put: "\<not> inTree d a \<Longrightarrow> subtree d (fs_put a n disk) = subtree d disk"
  by (induction disk) (auto simp: subtree_def fs_put_def)

lemma subtree_mkParents_fold:
  "\<forall>a\<in>set as. \<not> inTree d a \<Longrightarrow>
   subtree d (fold (\<lambda>a x. if nodeAt x a = None then fs_put a Dir x else x) as disk)
     = subtree d disk"
proof (induction as arbitrary: disk)
  case Nil
  then show ?case by simp
next
  case (Cons a as)
  have a: "\<not> inTree d a" and rest: "\<forall>b\<in>set as. \<not> inTree d b"
    using Cons.prems by simp_all
  show ?case
    using Cons.IH [OF rest, of "fs_put a Dir disk"] Cons.IH [OF rest, of disk]
      subtree_fs_put [OF a, of Dir disk]
    by (simp del: not_None_eq)
qed

lemma parents_not_inTree:
  assumes "\<not> inTree d q" and "a \<in> set (parents q)"
  shows "\<not> inTree d a"
proof
  assume in_d: "inTree d a"
  from assms(2) obtain i where i: "i < length q" "q ! i = CHR ''/''" "a = take i q"
    by (auto simp: parents_def)
  have "q = take i q @ q ! i # drop (Suc i) q"
    using i(1) by (simp add: id_take_nth_drop [symmetric])
  then have q: "q = a @ CHR ''/'' # drop (Suc i) q"
    using i by simp
  from in_d have "a = d \<or> prefix (d @ ''/'') a"
    by (simp add: inTree_def startsWith_def)
  then have "prefix (d @ ''/'') q"
  proof
    assume "a = d"
    then have "q = (d @ ''/'') @ drop (Suc i) q" using q by simp
    then show ?thesis by (metis prefixI)
  next
    assume "prefix (d @ ''/'') a"
    moreover have "prefix a q" using q by (metis prefixI)
    ultimately show ?thesis by (rule prefix_order.trans)
  qed
  then have "inTree d q" by (simp add: inTree_def startsWith_def)
  with assms(1) show False by simp
qed

lemma subtree_fs_write:
  assumes "\<not> inTree d q"
  shows "subtree d (fs_write q n disk) = subtree d disk"
proof -
  have "\<forall>a\<in>set (parents q). \<not> inTree d a"
    using parents_not_inTree [OF assms] by blast
  then have "subtree d (mkParents q disk) = subtree d disk"
    unfolding mkParents_def by (rule subtree_mkParents_fold)
  then show ?thesis
    by (simp add: fs_write_def subtree_fs_put [OF assms])
qed

lemma quiet_refl: "quiet d s s"
  by (simp add: quiet_def)

lemma quiet_trans: "quiet d s t \<Longrightarrow> quiet d t u \<Longrightarrow> quiet d s u"
  by (simp add: quiet_def registry_unchanged_def)

lemma quiet_emit: "quiet d s (emit sig s)"
  by (simp add: quiet_def)

lemma quiet_warn: "quiet d s (warn f s)"
  by (simp add: warn_def quiet_emit)

lemma copy_data_quiet: "quiet d s (snd (copy_data blocks s))"
  using copy_data_frame [of s blocks] by (simp add: quiet_def)

lemma write_entry_quiet:
  assumes "\<not> inTree d (landing (cwd s) e)"
  shows "quiet d s (snd (snd (write_entry e files s)))"
proof -
  let ?s' = "s\<lparr>fs := fs_write (landing (cwd s) e) (content e) (fs s)\<rparr>"
  obtain rv s'' where cd: "copy_data (data_blocks e) ?s' = (rv, s'')"
    by (cases "copy_data (data_blocks e) ?s'")
  have 1: "quiet d s ?s'"
    using subtree_fs_write [OF assms] by (simp add: quiet_def)
  have 2: "quiet d ?s' s''"
    using copy_data_quiet [of d ?s' "data_blocks e"] cd by simp
  have 3: "quiet d s s''" using quiet_trans [OF 1 2] .
  show ?thesis
    using 1 3 by (simp add: write_entry_def Let_def cd quiet_warn)
qed

lemma extract_entry_quiet:
  assumes "\<not> inTree d (landing (cwd s) e)"
  shows "quiet d s (snd (snd (extract_entry e files s)))"
proof -
  let ?s1 = "if read_next_header e < ARCHIVE_OK then warn ''archive_read_next_header()'' s else s"
  obtain ok files2 s2 where we: "write_entry e files ?s1 = (ok, files2, s2)"
    by (cases "write_entry e files ?s1")
  have 1: "quiet d s ?s1" by (simp add: quiet_warn quiet_refl)
  have "cwd ?s1 = cwd s" by (simp add: warn_def)
  then have 2: "quiet d ?s1 s2" using write_entry_quiet [of d ?s1 e files] we assms by simp
  have 3: "quiet d s s2" using quiet_trans [OF 1 2] .
  have 4: "quiet d s (warn ''archive_write_finish_entry()'' s2)"
    using quiet_trans [OF 3 quiet_warn] .
  show ?thesis
    using 1 3 4 by (simp add: extract_entry_def Let_def we)
qed

lemma extract_loop_quiet:
  assumes "\<forall>e\<in>set es. \<not> inTree d (landing (cwd s) e)"
  shows "quiet d s (snd (snd (extract_loop es files s)))"
  using assms
proof (induction es arbitrary: files s)
  case Nil
  then show ?case by (simp add: quiet_refl)
next
  case (Cons e es)
  obtain ok files' s' where ee: "extract_entry e files s = (ok, files', s')"
    by (cases "extract_entry e files s")
  have 1: "quiet d s s'" using extract_entry_quiet [of d s e files] ee Cons.prems by simp
  then have "cwd s' = cwd s" by (simp add: quiet_def)
  then have "quiet d s' (snd (snd (extract_loop es files' s')))"
    using Cons.IH [where files = files' and s = s'] Cons.prems by simp
  then have 2: "quiet d s (snd (snd (extract_loop es files' s')))"
    using quiet_trans [OF 1] by blast
  show ?case using 1 2 by (simp add: ee quiet_refl)
qed

lemma extractTarGzInCurrentPath_quiet:
  assumes "\<forall>e\<in>set (entries f). \<not> inTree d (landing (cwd s) e)"
  shows "quiet d s (snd (snd (extractTarGzInCurrentPath f files s)))"
  using extract_loop_quiet [OF assms]
  by (simp add: extractTarGzInCurrentPath_def quiet_warn)

lemma calm_refl: "calm d s s"
  by (simp add: calm_def)

lemma calm_trans: "calm d s t \<Longrightarrow> calm d t u \<Longrightarrow> calm d s u"
  by (simp add: calm_def registry_unchanged_def)

lemma calm_emit: "calm d s t \<Longrightarrow> calm d s (emit sig t)"
  by (simp add: calm_def)

lemma extractTarGz_calm:
  assumes "\<forall>e\<in>set (entries f). \<not> inTree d (landing tmp e)"
  shows "calm d s (snd (snd (extractTarGz f tmp files s)))"
proof (cases "isDir (fs s) tmp")
  case False
  then show ?thesis
    by (simp add: extractTarGz_def setCurrent_def calm_emit calm_refl)
next
  case True
  let ?s1 = "s\<lparr>cwd := tmp\<rparr>"
  obtain success extracted s2 where ex: "extractTarGzInCurrentPath f [] ?s1 = (success, extracted, s2)"
    by (cases "extractTarGzInCurrentPath f [] ?s1")
  have "quiet d ?s1 s2"
    using extractTarGzInCurrentPath_quiet [of f d ?s1 "[]"] ex assms by simp
  then have "calm d s s2" "calm d s (s2\<lparr>cwd := cwd s\<rparr>)"
    by (simp_all add: quiet_def calm_def registry_unchanged_def)
  then show ?thesis
    using True by (simp add: extractTarGz_def setCurrent_def ex Let_def)
qed

lemma parseModelInfo_state:
  "snd (parseModelInfo obj loc s) = s \<or> (\<exists>k. snd (parseModelInfo obj loc s) = emit (ErrMissingKey k) s)"
  by (auto simp add: parseModelInfo_def Let_def split: option.split)

lemma parseModelInfo_calm: "calm d s (snd (parseModelInfo obj loc s))"
  using parseModelInfo_state [of obj loc s] by (auto simp: calm_refl calm_emit)

lemma getModelInfoJsonFromDir_calm: "calm d s (snd (getModelInfoJsonFromDir dir s))"
  by (simp add: getModelInfoJsonFromDir_def Let_def calm_refl calm_emit
      split: option.split node.split)

lemma validateModel_calm: "calm d s (snd (validateModel p s))"
proof -
  obtain obj s1 where g: "getModelInfoJsonFromDir p s = (obj, s1)"
    by (cases "getModelInfoJsonFromDir p s")
  obtain model s2 where pm: "parseModelInfo obj Local s1 = (model, s2)"
    by (cases "parseModelInfo obj Local s1")
  have 1: "calm d s s1" using getModelInfoJsonFromDir_calm [of d s p] g by simp
  have 2: "calm d s s2" using calm_trans [OF 1] parseModelInfo_calm [of d s1 obj Local] pm by simp
  show ?thesis using 1 2 by (simp add: validateModel_def g pm calm_emit)
qed

lemma rename_failed: "\<not> fst (rename ev old new s) \<Longrightarrow> snd (rename ev old new s) = s"
  by (auto simp add: rename_def split: if_splits)

lemma writeModel_body_calm:
  assumes names: "\<forall>e\<in>set (entries f). \<not> inTree d (landing tmp e)"
    and fails: "fst (writeModel_body ev tmp f filename s) = Inl err"
  shows "calm d s (snd (writeModel_body ev tmp f filename s))"
proof -
  obtain ok extracted s1 where ex: "extractTarGz f tmp [] s = (ok, extracted, s1)"
    by (cases "extractTarGz f tmp [] s")
  let ?pfx = "getCommonPrefixPath extracted"
  obtain valid s2 where va: "validateModel ?pfx s1 = (valid, s2)"
    by (cases "validateModel ?pfx s1")
  let ?new = "filePath (configDir s2) (newModelDirName ev filename)"
  obtain moved s3 where mv: "rename ev ?pfx ?new s2 = (moved, s3)"
    by (cases "rename ev ?pfx ?new s2")
  have 1: "calm d s s1" using extractTarGz_calm [OF names, of s "[]"] ex by simp
  have 2: "calm d s s2" using calm_trans [OF 1] validateModel_calm [of d s1 ?pfx] va by simp
  have 3: "\<not> moved \<Longrightarrow> s3 = s2" using rename_failed [of ev ?pfx ?new s2] mv by simp
  show ?thesis
    using fails 1 2 3
    by (auto simp add: writeModel_body_def ex va mv Let_def calm_emit split: if_splits prod.splits)
qed

lemma subtree_removeTree: "subtree d (removeTree tmp disk) = removeTree tmp (subtree d disk)"
  by (induction disk) (simp_all add: subtree_def removeTree_def)

lemma removeTree_fresh:
  "list_all (\<lambda>e. \<not> inTree tmp (fst e)) disk \<Longrightarrow> removeTree tmp (fs_put tmp n disk) = disk"
  by (induction disk) (auto simp add: removeTree_def fs_put_def inTree_def)

lemma writeModel_steps_failed:
  assumes spares: "sparesRoot ev f s"
    and fails: "fst (writeModel_steps ev f filename s) = Inl err"
  shows "registry_unchanged s (snd (writeModel_steps ev f filename s))
       \<and> subtree (cleanPath (configDir s)) (fs (snd (writeModel_steps ev f filename s)))
         = subtree (cleanPath (configDir s)) (fs s)"
proof (cases "tempDir ev")
  case None
  then show ?thesis by (simp add: writeModel_steps_def)
next
  case (Some tmp)
  let ?d = "cleanPath (configDir s)"
  show ?thesis
  proof (cases "tempDirValid (fs s) tmp")
    case False
    then show ?thesis by (simp add: writeModel_steps_def Some)
  next
    case True
    let ?name = "if filename = [] then baseName (fileName f) else filename"
    let ?s0 = "s\<lparr>fs := fs_put tmp Dir (fs s)\<rparr>"
    obtain r s' where body: "writeModel_body ev tmp f ?name ?s0 = (r, s')"
      by (cases "writeModel_body ev tmp f ?name ?s0")
    have steps: "writeModel_steps ev f filename s =
        (case r of Inl e \<Rightarrow> (Inl e, s'\<lparr>fs := removeTree tmp (fs s')\<rparr>) | Inr model \<Rightarrow> (Inr model, s'))"
      using True body by (simp add: writeModel_steps_def Some Let_def split: sum.split)
    obtain e where r: "r = Inl e"
      using fails steps by (cases r) simp_all
    have names: "\<forall>e\<in>set (entries f). \<not> inTree ?d (landing tmp e)"
      using spares by (simp add: sparesRoot_def Some list_all_iff)
    have "calm ?d ?s0 (snd (writeModel_body ev tmp f ?name ?s0))"
      by (rule writeModel_body_calm [OF names]) (simp add: body r)
    then have calm: "calm ?d ?s0 s'" by (simp add: body)
    have fresh: "list_all (\<lambda>e. \<not> inTree tmp (fst e)) (fs s)"
      using True by (simp add: tempDirValid_def)
    have "subtree ?d (removeTree tmp (fs s')) = removeTree tmp (subtree ?d (fs s'))"
      by (rule subtree_removeTree)
    also have "\<dots> = removeTree tmp (subtree ?d (fs_put tmp Dir (fs s)))"
      using calm by (simp add: calm_def)
    also have "\<dots> = subtree ?d (removeTree tmp (fs_put tmp Dir (fs s)))"
      by (rule subtree_removeTree [symmetric])
    also have "\<dots> = subtree ?d (fs s)"
      by (simp only: removeTree_fresh [OF fresh])
    finally have disk: "subtree ?d (removeTree tmp (fs s')) = subtree ?d (fs s)" .
    have "registry_unchanged s s'"
      using calm by (simp add: calm_def registry_unchanged_def)
    then show ?thesis
      by (simp add: steps r disk registry_unchanged_def)
  qed
qed

text \<open>
  Claim C1, as amended.  Whenever an install attempt fails, at whatever step (the temporary
  directory cannot be made, the extraction fails, nothing was extracted, there is no common
  prefix, the package is not valid, the relocation fails), \<^const>\<open>writeModel\<close> returns the
  empty model and leaves the registry and everything at and below the managed root as it
  was, so that no new directory appears under the managed root, provided no entry of the
  archive is written at or below the managed root.  The proviso is about the place where
  libarchive writes an entry, through whatever links, not about the names in the archive.
\<close>

theorem writeModel_failure_leaves_root:
  assumes "sparesRoot ev f s"
    and "fst (writeModel_steps ev f filename s) = Inl err"
  shows "fst (writeModel ev f filename s) = empty_Model
       \<and> localModels (snd (writeModel ev f filename s)) = localModels s
       \<and> subtree (cleanPath (configDir s)) (fs (snd (writeModel ev f filename s)))
         = subtree (cleanPath (configDir s)) (fs s)"
proof -
  obtain r s' where steps: "writeModel_steps ev f filename s = (r, s')"
    by (cases "writeModel_steps ev f filename s")
  have r: "r = Inl err" using assms(2) steps by simp
  have "registry_unchanged s s'
      \<and> subtree (cleanPath (configDir s)) (fs s') = subtree (cleanPath (configDir s)) (fs s)"
    using writeModel_steps_failed [OF assms] steps by simp
  then show ?thesis
    by (simp add: writeModel_def steps r registry_unchanged_def)
qed

theorem writeModel_failure_leaves_root_witness:
  "sparesRoot ex_env bad_archive ex_manager
   \<and> fst (writeModel_steps ex_env bad_archive [] ex_manager) = Inl InvalidPackage
   \<and> fst (writeModel ex_env bad_archive [] ex_manager) = empty_Model
   \<and> localModels (snd (writeModel ex_env bad_archive [] ex_manager)) = localModels ex_manager
   \<and> subtree (cleanPath (configDir ex_manager)) (fs (snd (writeModel ex_env bad_archive [] ex_manager)))
     = subtree (cleanPath (configDir ex_manager)) (fs ex_manager)"
proof -
  have h1: "sparesRoot ex_env bad_archive ex_manager" by code_simp
  have h2: "fst (writeModel_steps ex_env bad_archive [] ex_manager) = Inl InvalidPackage"
    by code_simp
  show ?thesis
    using writeModel_failure_leaves_root [OF h1 h2] h1 h2 by simp
qed

text \<open>
  Claim C1 as the spec has it, without the proviso, fails in three ways.  The install of an
  archive whose one entry has the absolute name \<^verbatim>\<open>/cfg/evil/f\<close>, of one whose entry has the
  name \<^verbatim>\<open>../../cfg/evil/f\<close>, and of one whose entry \<^verbatim>\<open>top/link/evil/f\<close> is written through
  a link to the managed root \<^verbatim>\<open>/cfg\<close>, each fails and returns the empty model, and each
  leaves the new directory \<^verbatim>\<open>/cfg/evil\<close> below the managed root.
\<close>

theorem writeModel_escaping_entry_counterexample:
  "lookup (fs ex_manager) ''/cfg/evil'' = None
   \<and> fst (writeModel ex_env evil_archive [] ex_manager) = empty_Model
   \<and> lookup (fs (snd (writeModel ex_env evil_archive [] ex_manager))) ''/cfg/evil'' = Some Dir
   \<and> \<not> isAbsolutePath (pathname (hd (entries dotdot_archive)))
   \<and> fst (writeModel ex_env dotdot_archive [] ex_manager) = empty_Model
   \<and> lookup (fs (snd (writeModel ex_env dotdot_archive [] ex_manager))) ''/cfg/evil'' = Some Dir
   \<and> map pathname (entries link_archive) = [''top/link'', ''top/link/evil/f'']
   \<and> confined ''top/link'' \<and> confined ''top/link/evil/f''
   \<and> fst (writeModel ex_env link_archive [] ex_manager) = empty_Model
   \<and> lookup (fs (snd (writeModel ex_env link_archive [] ex_manager))) ''/cfg/evil'' = Some Dir"
  by code_simp
section \<open>The path of an installed model\<close>






lemma parseModelInfo_path:
  "jfind obj ''path'' = Some (JString d) \<Longrightarrow>
   path (fst (parseModelInfo obj Local s)) = d \<and> snd (parseModelInfo obj Local s) = s"
  by (simp add: parseModelInfo_def Let_def set_string_def)

lemma jfind_jinsert: "jfind (jinsert k v obj) k = Some v"
  by (simp add: jfind_def jinsert_def)

lemma getModelInfoJsonFromDir_readable:
  "lookup (fs s) (d @ ''/model_info.json'') = Some (File True obj) \<Longrightarrow>
   getModelInfoJsonFromDir d s = (jinsert ''path'' (JString d) obj, s)"
  by (simp add: getModelInfoJsonFromDir_def)


lemma configDir_insertLocalModel [simp]: "configDir (snd (insertLocalModel m s)) = configDir s"
  by (simp add: insertLocalModel_def emit_def split: sum.split)

lemma configDir_updateAvailableModels_step [simp]:
  "configDir (updateAvailableModels_step m s) = configDir s"
  by (simp add: updateAvailableModels_step_def Let_def emit_def split: option.split)

lemma configDir_fold_step [simp]:
  "configDir (fold updateAvailableModels_step ms s) = configDir s"
  by (induction ms arbitrary: s) simp_all

lemma configDir_updateAvailableModels [simp]:
  "configDir (updateAvailableModels s) = configDir s"
  by (simp add: updateAvailableModels_def emit_def)


section \<open>A successful install\<close>





section \<open>Scanning\<close>

lemma insertLocalModel_signals:
  "(\<exists>i. signals (snd (insertLocalModel m s)) = signals s @ [DataChanged i])
   \<or> (\<exists>p. signals (snd (insertLocalModel m s)) = signals s @ [RowsInserted p (p + 1)])"
  by (simp add: insertLocalModel_def emit_def split: sum.split)

lemma scanForModels_loop_readable:
  assumes dir: "isDir (fs s) current"
    and descr: "lookup (fs s) (current @ ''/model_info.json'') = Some (File True obj)"
    and ne: "current \<noteq> []"
  shows "path (fst (parseModelInfo (jinsert ''path'' (JString current) obj) Local s)) = current
       \<and> scanForModels_loop (current # rest) s
           = scanForModels_loop rest
               (snd (insertLocalModel
                  (fst (parseModelInfo (jinsert ''path'' (JString current) obj) Local s)) s))"
proof -
  let ?obj = "jinsert ''path'' (JString current) obj"
  let ?m = "fst (parseModelInfo ?obj Local s)"
  have g: "getModelInfoJsonFromDir current s = (?obj, s)"
    using getModelInfoJsonFromDir_readable [OF descr] .
  have p: "path ?m = current" "snd (parseModelInfo ?obj Local s) = s"
    using parseModelInfo_path [of ?obj current s] by (simp_all add: jfind_jinsert)
  have o: "?obj \<noteq> []" by (simp add: jinsert_def)
  obtain m where pm: "parseModelInfo ?obj Local s = (m, s)"
    using p(2) by (cases "parseModelInfo ?obj Local s") simp
  then have m: "m = ?m" by simp
  have pth: "path m \<noteq> []" using p(1) ne by (simp only: m) simp
  have "scanForModels_loop (current # rest) s
           = scanForModels_loop rest (snd (insertLocalModel m s))"
    using dir pth o by (simp add: g pm)
  then have loop: "scanForModels_loop (current # rest) s
           = scanForModels_loop rest (snd (insertLocalModel ?m s))"
    by (simp only: m)
  show ?thesis using p(1) loop by simp
qed

lemma scanForModels_loop_unreadable:
  assumes dir: "isDir (fs s) current"
    and descr: "lookup (fs s) (current @ ''/model_info.json'') \<noteq> None"
      "\<forall>obj. lookup (fs s) (current @ ''/model_info.json'') \<noteq> Some (File True obj)"
  shows "scanForModels_loop (current # rest) s
       = scanForModels_loop rest (emit (ErrOpenJson (current @ ''/model_info.json'')) s)"
proof -
  have "getModelInfoJsonFromDir current s = ([], emit (ErrOpenJson (current @ ''/model_info.json'')) s)"
  proof (cases "lookup (fs s) (current @ ''/model_info.json'')")
    case None
    with descr(1) show ?thesis by simp
  next
    case (Some n)
    show ?thesis
    proof (cases n)
      case Dir
      with Some show ?thesis by (simp add: getModelInfoJsonFromDir_def)
    next
      case (File r obj)
      with Some descr(2) have "\<not> r" by auto
      with Some File show ?thesis by (simp add: getModelInfoJsonFromDir_def)
    qed
  qed
  then show ?thesis using dir by simp
qed

lemma scanForModels_loop_no_descriptor:
  assumes dir: "isDir (fs s) current"
    and descr: "lookup (fs s) (current @ ''/model_info.json'') = None"
  shows "scanForModels_loop (current # rest) s = scanForModels_loop rest s"
proof -
  have "getModelInfoJsonFromDir current s = ([], s)"
    using descr by (simp add: getModelInfoJsonFromDir_def)
  then show ?thesis using dir by simp
qed

text \<open>
  Claim C6, as amended. For every subdirectory \<open>current\<close> (not the empty path) that the
  scan visits, the step leaves \<open>scanned_directory current s\<close>: a directory without
  \<open>model_info.json\<close> is skipped silently; when the file exists but cannot be opened the
  open error is emitted and no model is added; when it can be opened, whatever object it
  holds, the reader adds \<open>path = current\<close>, the parse yields a model with that path and
  the model is upserted into the registry. In no case does the step emit the corruption
  warning.
\<close>

theorem scanForModels_registers_readable_descriptor:
  assumes dir: "isDir (fs s) current" and ne: "current \<noteq> []"
  shows "scanForModels_loop (current # rest) s
           = scanForModels_loop rest (scanned_directory current s)
       \<and> ErrCorrupted current \<notin> set (signals (scanned_directory current s)) - set (signals s)
       \<and> path (fst (parseModelInfo (jinsert ''path'' (JString current) obj) Local s)) = current"
proof (intro conjI)
  show "scanForModels_loop (current # rest) s
           = scanForModels_loop rest (scanned_directory current s)"
  proof (cases "lookup (fs s) (current @ ''/model_info.json'')")
    case None
    then show ?thesis
      using scanForModels_loop_no_descriptor [OF dir None] by (simp add: scanned_directory_def)
  next
    case (Some n)
    show ?thesis
    proof (cases n)
      case Dir
      then show ?thesis
        using scanForModels_loop_unreadable [OF dir, of rest] Some
        by (simp add: scanned_directory_def)
    next
      case (File r obj')
      show ?thesis
      proof (cases r)
        case True
        then show ?thesis
          using scanForModels_loop_readable [OF dir _ ne, of obj' rest] Some File
          by (simp add: scanned_directory_def)
      next
        case False
        then show ?thesis
          using scanForModels_loop_unreadable [OF dir, of rest] Some File
          by (simp add: scanned_directory_def)
      qed
    qed
  qed
next
  show "ErrCorrupted current \<notin> set (signals (scanned_directory current s)) - set (signals s)"
  proof (cases "lookup (fs s) (current @ ''/model_info.json'')")
    case None
    then show ?thesis by (simp add: scanned_directory_def)
  next
    case (Some n)
    show ?thesis
    proof (cases n)
      case Dir
      with Some show ?thesis by (simp add: scanned_directory_def emit_def)
    next
      case (File r obj')
      show ?thesis
        using insertLocalModel_signals
          [of "fst (parseModelInfo (jinsert ''path'' (JString current) obj') Local s)" s]
          Some File
        by (auto simp add: scanned_directory_def emit_def)
    qed
  qed
next
  show "path (fst (parseModelInfo (jinsert ''path'' (JString current) obj) Local s)) = current"
    using parseModelInfo_path [of "jinsert ''path'' (JString current) obj" current s]
    by (simp add: jfind_jinsert)
qed

theorem scanForModels_registers_readable_descriptor_witness:
  "isDir (fs scan_manager) ''/cfg/x''
   \<and> scanForModels_loop [''/cfg/x''] scan_manager = scanned_directory ''/cfg/x'' scan_manager
   \<and> localModels (scanned_directory ''/cfg/x'' scan_manager) = [empty_Model\<lparr>path := ''/cfg/x''\<rparr>]
   \<and> signals (scanned_directory ''/cfg/x'' scan_manager) = [RowsInserted 0 1]"
proof -
  have h1: "isDir (fs scan_manager) ''/cfg/x''"
    by code_simp
  have h2: "''/cfg/x'' \<noteq> []"
    by simp
  have e: "localModels (scanned_directory ''/cfg/x'' scan_manager) = [empty_Model\<lparr>path := ''/cfg/x''\<rparr>]
         \<and> signals (scanned_directory ''/cfg/x'' scan_manager) = [RowsInserted 0 1]"
    by code_simp
  show ?thesis
    using scanForModels_registers_readable_descriptor [OF h1 h2, of "[]"] h1 e by simp
qed

text \<open>
  Claim C6 as stated fails. In \<open>scan_manager\<close> the directory \<open>/cfg/x\<close> has a
  \<open>model_info.json\<close> that holds the empty object, which lacks \<open>path\<close> and every other
  field. The scan of \<open>/cfg\<close> emits no corruption warning for it and adds a model for
  it, with empty names, to the registry.
\<close>

theorem scanForModels_no_corruption_warning_counterexample:
  "dirEntries (fs scan_manager) ''/cfg'' = [''/cfg/.'', ''/cfg/..'', ''/cfg/x'', ''/cfg/y'']
   \<and> lookup (fs scan_manager) ''/cfg/x/model_info.json'' = Some (File True [])
   \<and> jfind [] ''path'' = None
   \<and> localModels (scanForModels ''/cfg'' scan_manager) = [empty_Model\<lparr>path := ''/cfg/x''\<rparr>]
   \<and> ErrCorrupted ''/cfg/x'' \<notin> set (signals (scanForModels ''/cfg'' scan_manager))"
  by code_simp

end
